theory Spec2Isabelle
  imports Main "HOL-Library.AList"
begin

section \<open>Objects received from the remote\<close>

subsection \<open>Entities\<close>

text \<open>
  The entity variants that \<open>_EntityDownloader.extend_pending\<close> tells apart with
  \<open>isinstance\<close>. Each carries the raw numeric id; a user carries its \<open>deleted\<close> and
  \<open>min\<close> flags, a channel its \<open>left\<close> and \<open>megagroup\<close> flags. The last four variants are
  the ones the source names in the comment of its final \<open>else\<close> branch.
\<close>

datatype entity =
    User int bool bool
  | Chat int
  | Channel int bool bool
  | UserEmpty int
  | ChatEmpty int
  | ChatForbidden int
  | ChannelForbidden int

text \<open>Exceptions that cross the functions of \<open>downloader.py\<close> and \<open>utils.py\<close>.\<close>

datatype error =
    RPCError
  | ChatAdminRequiredError
  | OSError
  | AttributeError
  | AssertionError
  | IndexError
  | ValueError
  | TypeError

text \<open>
  A call either returns a value and the state it leaves, or raises and leaves the state
  reached at the raise.
\<close>

datatype ('a, 's) outcome = Returned 'a 's | Raised error 's

subsection \<open>Media\<close>

text \<open>
  A media descriptor as the source inspects it: a photo media carries a photo, a document
  media carries a document with its size and attributes, and every other media class
  (geo, contact, web page, ...) is one variant. The integer is the remote-assigned id.
\<close>

datatype document_attribute =
    DocumentAttributeSticker
  | DocumentAttributeVideo
  | DocumentAttributeAudio bool
  | DocumentAttributeFilename string
  | DocumentAttributeOther

datatype photo = PhotoEmpty int | Photo int

datatype document = DocumentEmpty int | Document int int "document_attribute list"

datatype message_media =
    MessageMediaPhoto photo
  | MessageMediaDocument document
  | MessageMediaOther int

subsection \<open>Messages and pages of history\<close>

text \<open>
  A forward header is opaque to the downloader; it is handed to the dumper as it is.
\<close>

datatype fwd_header = FwdHeader int int

datatype message_action = MessageActionChatEditPhoto photo | MessageActionOther

text \<open>
  The rows of a page: a content message with id, date, media and forward header, a service
  message with id, date and action, and an empty message, which has an id and no date.
\<close>

datatype history_row =
    Message int int "message_media option" "fwd_header option"
  | MessageService int int message_action
  | MessageEmpty int

fun row_id :: "history_row \<Rightarrow> int" where
  "row_id (Message i _ _ _) = i"
| "row_id (MessageService i _ _) = i"
| "row_id (MessageEmpty i) = i"

fun row_date :: "history_row \<Rightarrow> int option" where
  "row_date (Message _ date _ _) = Some date"
| "row_date (MessageService _ date _) = Some date"
| "row_date (MessageEmpty _) = None"

text \<open>
  The reply to a \<open>GetHistoryRequest\<close>: \<open>h_count\<close> is the \<open>count\<close> attribute, absent on replies
  that hold the whole history.
\<close>

record history =
  h_messages :: "history_row list"
  h_users :: "entity list"
  h_chats :: "entity list"
  h_count :: "int option"

section \<open>The storage collaborator, as far as entities go\<close>

text \<open>
  Modelled from the spec: the dumper, whose module \<open>dumper.py\<close> lies outside this
  development. For entities the model keeps the rows in the order the dumper is asked to
  write them; one row stands for the pair of calls \<open>dump_media(photo)\<close> and \<open>dump_user\<close> / \<open>dump_chat\<close> /
  \<open>dump_supergroup\<close> / \<open>dump_channel\<close>.
\<close>

datatype entity_row =
    UserRow entity
  | ChatRow entity
  | SupergroupRow entity
  | ChannelRow entity

section \<open>The remote, as an oracle\<close>

text \<open>
  \<open>get_peer_id\<close> is \<open>telethon.utils.get_peer_id\<close>. \<open>get_full\<close> answers
  \<open>client(GetFullUserRequest(e))\<close> and \<open>client(GetFullChannelRequest(e))\<close>: \<open>None\<close> when the
  request returns (the reply itself is opaque to the model), \<open>Some err\<close> when it raises.
  \<open>download_file\<close> does the same for the \<open>client.download_file\<close> call that ends
  \<open>download_profile_photo(photo, target, known_id)\<close>, keyed by the target and the known id.
  \<open>get_history n offset_id offset_date limit\<close> answers the \<open>n\<close>-th \<open>GetHistoryRequest\<close> of a
  run, so a reply may depend on the request and on what the remote has been asked before.
  \<open>download_media_file\<close> answers \<open>client.download_media\<close> for the message with the given id
  (the path written, \<open>None\<close>, or an exception; a failing \<open>os.makedirs\<close> just before it counts
  as its exception), and \<open>get_participants\<close> answers \<open>client.get_participants\<close>.
\<close>

record remote =
  get_peer_id :: "entity \<Rightarrow> int"
  get_full :: "entity \<Rightarrow> error option"
  download_file :: "entity \<Rightarrow> int option \<Rightarrow> error option"
  get_history :: "nat \<Rightarrow> int \<Rightarrow> int \<Rightarrow> int \<Rightarrow> error + history"
  download_media_file :: "int \<Rightarrow> error + string option"
  get_participants :: "error + int list"

section \<open>\<open>_EntityDownloader\<close>\<close>

text \<open>
  \<open>photo_fmt\<close> keeps only the truth value of the format string, which is all
  \<open>download_profile_photo\<close> branches on before it reaches the remote. \<open>pending\<close> is the
  deque, read from the left. \<open>entity_rows\<close> is the part of the shared dumper this object
  writes.
\<close>

record entity_downloader =
  photo_fmt :: bool
  pending :: "entity list"
  pending_ids :: "int set"
  dumped_ids :: "int set"
  entity_rows :: "entity_row list"

definition entity_downloader_init :: "bool \<Rightarrow> entity_row list \<Rightarrow> entity_downloader" where
  "entity_downloader_init fmt rows =
     \<lparr>photo_fmt = fmt, pending = [], pending_ids = {}, dumped_ids = {}, entity_rows = rows\<rparr>"

definition dumped_count :: "entity_downloader \<Rightarrow> nat" where
  "dumped_count q = card (dumped_ids q)"

definition total_count :: "entity_downloader \<Rightarrow> nat" where
  "total_count q = card (pending_ids q) + card (dumped_ids q)"

text \<open>\<open>__len__\<close> and \<open>__bool__\<close>.\<close>

definition queue_len :: "entity_downloader \<Rightarrow> nat" where
  "queue_len q = length (pending q)"

definition queue_bool :: "entity_downloader \<Rightarrow> bool" where
  "queue_bool q = (pending q \<noteq> [])"

text \<open>
  \<open>download_profile_photo\<close>: nothing happens without a photo format; otherwise the outcome is
  the remote's (a photo without a usable location returns early, which the oracle answers
  with \<open>None\<close>).
\<close>

definition download_profile_photo ::
  "remote \<Rightarrow> entity_downloader \<Rightarrow> entity \<Rightarrow> int option \<Rightarrow> error option" where
  "download_profile_photo r q target known_id =
     (if \<not> photo_fmt q then None else download_file r target known_id)"

text \<open>The two last statements of \<open>_dump_entity\<close>.\<close>

definition mark_dumped :: "int \<Rightarrow> entity_downloader \<Rightarrow> entity_downloader" where
  "mark_dumped eid q = q\<lparr>pending_ids := pending_ids q - {eid}, dumped_ids := insert eid (dumped_ids q)\<rparr>"

definition add_row :: "entity_row \<Rightarrow> entity_downloader \<Rightarrow> entity_downloader" where
  "add_row row q = q\<lparr>entity_rows := entity_rows q @ [row]\<rparr>"

text \<open>
  \<open>_dump_entity\<close>. A user or a channel costs one full-info request; a chat costs none and
  returns \<open>needed_sleep = 0\<close>. Any other variant matches no branch and is only marked.
\<close>

definition dump_entity ::
  "remote \<Rightarrow> entity \<Rightarrow> entity_downloader \<Rightarrow> (nat, entity_downloader) outcome" where
  "dump_entity r e q =
     (let eid = get_peer_id r e in
      case e of
        User _ _ _ \<Rightarrow>
          (case get_full r e of
             Some err \<Rightarrow> Raised err q
           | None \<Rightarrow>
               let q1 = add_row (UserRow e) q in
               (case download_profile_photo r q1 e None of
                  Some err \<Rightarrow> Raised err q1
                | None \<Rightarrow> Returned 1 (mark_dumped eid q1)))
      | Chat _ \<Rightarrow>
          (let q1 = add_row (ChatRow e) q in
           case download_profile_photo r q1 e None of
             Some err \<Rightarrow> Raised err q1
           | None \<Rightarrow> Returned 0 (mark_dumped eid q1))
      | Channel _ _ megagroup \<Rightarrow>
          (case get_full r e of
             Some err \<Rightarrow> Raised err q
           | None \<Rightarrow>
               let q1 = add_row (if megagroup then SupergroupRow e else ChannelRow e) q in
               (case download_profile_photo r q1 e None of
                  Some err \<Rightarrow> Raised err q1
                | None \<Rightarrow> Returned 1 (mark_dumped eid q1)))
      | _ \<Rightarrow> Returned 1 (mark_dumped eid q))"

text \<open>The last three lines of the loop body of \<open>extend_pending\<close>.\<close>

definition enqueue :: "remote \<Rightarrow> entity \<Rightarrow> entity_downloader \<Rightarrow> entity_downloader" where
  "enqueue r e q =
     (let eid = get_peer_id r e in
      if eid \<notin> dumped_ids q \<and> \<not> eid \<in> pending_ids q
      then q\<lparr>pending_ids := insert eid (pending_ids q), pending := pending q @ [e]\<rparr>
      else q)"

fun extend_pending ::
  "remote \<Rightarrow> entity list \<Rightarrow> entity_downloader \<Rightarrow> (unit, entity_downloader) outcome" where
  "extend_pending r [] q = Returned () q"
| "extend_pending r (e # es) q =
     (case e of
        User _ deleted mn \<Rightarrow>
          if deleted \<or> mn then extend_pending r es q
          else extend_pending r es (enqueue r e q)
      | Chat _ \<Rightarrow>
          (case dump_entity r e q of
             Raised err q1 \<Rightarrow> Raised err q1
           | Returned _ q1 \<Rightarrow> extend_pending r es q1)
      | Channel _ left _ \<Rightarrow>
          if left then extend_pending r es q
          else extend_pending r es (enqueue r e q)
      | _ \<Rightarrow> extend_pending r es q)"

text \<open>\<open>pop_pending\<close> (the progress bar is not part of the model).\<close>

definition pop_pending :: "remote \<Rightarrow> entity_downloader \<Rightarrow> (nat, entity_downloader) outcome" where
  "pop_pending r q =
     (case pending q of
        [] \<Rightarrow> Returned 0 q
      | e # rest \<Rightarrow> dump_entity r e (q\<lparr>pending := rest\<rparr>))"

subsection \<open>Sequences of queue operations\<close>

datatype queue_op = Offer "entity list" | PopOne

fun queue_step :: "remote \<Rightarrow> queue_op \<Rightarrow> entity_downloader \<Rightarrow> (unit, entity_downloader) outcome" where
  "queue_step r (Offer es) q = extend_pending r es q"
| "queue_step r PopOne q =
     (case pop_pending r q of Returned _ q1 \<Rightarrow> Returned () q1 | Raised err q1 \<Rightarrow> Raised err q1)"

fun queue_run :: "remote \<Rightarrow> queue_op list \<Rightarrow> entity_downloader \<Rightarrow> (unit, entity_downloader) outcome" where
  "queue_run r [] q = Returned () q"
| "queue_run r (x # xs) q =
     (case queue_step r x q of Returned _ q1 \<Rightarrow> queue_run r xs q1 | Raised err q1 \<Rightarrow> Raised err q1)"

fun offered :: "queue_op list \<Rightarrow> entity list" where
  "offered [] = []"
| "offered (Offer es # xs) = es @ offered xs"
| "offered (PopOne # xs) = offered xs"

fun is_chat :: "entity \<Rightarrow> bool" where
  "is_chat (Chat _) = True"
| "is_chat _ = False"

fun is_user_or_channel :: "entity \<Rightarrow> bool" where
  "is_user_or_channel (User _ _ _) = True"
| "is_user_or_channel (Channel _ _ _) = True"
| "is_user_or_channel _ = False"

text \<open>
  The data model's uniqueness of peer ids, restricted to what the queue needs and to the
  entities at hand: no basic group shares its peer id with a user or a channel.
\<close>

definition chats_apart :: "remote \<Rightarrow> entity list \<Rightarrow> bool" where
  "chats_apart r es =
     (\<forall>c \<in> set es. \<forall>e \<in> set es. is_chat c \<and> is_user_or_channel e \<longrightarrow> get_peer_id r c \<noteq> get_peer_id r e)"

text \<open>The entities \<open>Offer\<close> is specified to drop, as the specification lists them.\<close>

fun dropped_kind :: "entity \<Rightarrow> bool" where
  "dropped_kind (UserEmpty _) = True"
| "dropped_kind (ChatEmpty _) = True"
| "dropped_kind (ChatForbidden _) = True"
| "dropped_kind (ChannelForbidden _) = True"
| "dropped_kind (User _ deleted mn) = (deleted \<or> mn)"
| "dropped_kind (Channel _ left _) = left"
| "dropped_kind (Chat _) = False"

subsection \<open>The queue invariant\<close>

text \<open>
  \<open>U\<close> is the set of entities the queue is ever offered. The invariant ties the deque to the
  set that mirrors it and keeps both apart from the dumped ids.
\<close>

definition queue_inv :: "remote \<Rightarrow> entity set \<Rightarrow> entity_downloader \<Rightarrow> bool" where
  "queue_inv r U q =
     (finite (pending_ids q) \<and> finite (dumped_ids q) \<and> pending_ids q \<inter> dumped_ids q = {} \<and>
      distinct (map (get_peer_id r) (pending q)) \<and>
      get_peer_id r ` set (pending q) = pending_ids q \<and>
      set (pending q) \<subseteq> {e \<in> U. is_user_or_channel e})"

definition apart :: "remote \<Rightarrow> entity set \<Rightarrow> bool" where
  "apart r U = (\<forall>c \<in> U. \<forall>e \<in> U. is_chat c \<and> is_user_or_channel e \<longrightarrow> get_peer_id r c \<noteq> get_peer_id r e)"

subsection \<open>A simulated remote\<close>

text \<open>
  A peer id in the marked form (user id unchanged, chat id negated, channel id below
  \<open>-10^12\<close>) and a remote whose requests all return; used to run the model on concrete
  inputs.
\<close>

fun marked_peer_id :: "entity \<Rightarrow> int" where
  "marked_peer_id (User i _ _) = i"
| "marked_peer_id (Chat i) = - i"
| "marked_peer_id (Channel i _ _) = - (1000000000000 + i)"
| "marked_peer_id (UserEmpty i) = i"
| "marked_peer_id (ChatEmpty i) = - i"
| "marked_peer_id (ChatForbidden i) = - i"
| "marked_peer_id (ChannelForbidden i) = - (1000000000000 + i)"

definition quiet_remote :: remote where
  "quiet_remote =
     \<lparr>get_peer_id = marked_peer_id, get_full = (\<lambda>_. None), download_file = (\<lambda>_ _. None),
        get_history = (\<lambda>_ _ _ _. Inr \<lparr>h_messages = [], h_users = [], h_chats = [], h_count = None\<rparr>),
        download_media_file = (\<lambda>_. Inr None), get_participants = Inr []\<rparr>"

section \<open>Media classification\<close>

text \<open>\<open>_get_media_type\<close> returns a string on most paths and \<open>False\<close> on one.\<close>

datatype media_type = TypeName string | PyFalse

text \<open>
  \<open>isinstance(media, types.Document)\<close>: \<open>types.Document\<close> is the class of the value in the
  \<open>document\<close> field, and no message media is an instance of it.
\<close>

fun isinstance_Document :: "message_media \<Rightarrow> bool" where
  "isinstance_Document (MessageMediaPhoto _) = False"
| "isinstance_Document (MessageMediaDocument _) = False"
| "isinstance_Document (MessageMediaOther _) = False"

text \<open>The \<open>for attr in ...\<close> loop of \<open>_get_media_type\<close> with the \<open>return 'document'\<close> after it.\<close>

fun attribute_type :: "document_attribute list \<Rightarrow> string" where
  "attribute_type [] = ''document''"
| "attribute_type (DocumentAttributeSticker # _) = ''sticker''"
| "attribute_type (DocumentAttributeVideo # _) = ''video''"
| "attribute_type (DocumentAttributeAudio voice # _) = (if voice then ''voice'' else ''audio'')"
| "attribute_type (_ # attrs) = attribute_type attrs"

fun document_attributes :: "document \<Rightarrow> document_attribute list" where
  "document_attributes (DocumentEmpty _) = []"
| "document_attributes (Document _ _ attrs) = attrs"

text \<open>
  \<open>_get_media_type\<close>. In the document branch the \<open>isinstance\<close> guard comes first, as in the
  source; the loop behind it is written over the attributes of the carried document.
\<close>

definition get_media_type :: "message_media option \<Rightarrow> media_type" where
  "get_media_type media =
     (case media of
        None \<Rightarrow> TypeName ''''
      | Some (MessageMediaPhoto _) \<Rightarrow> TypeName ''photo''
      | Some (MessageMediaDocument d) \<Rightarrow>
          if \<not> isinstance_Document (MessageMediaDocument d) then PyFalse
          else TypeName (attribute_type (document_attributes d))
      | Some (MessageMediaOther _) \<Rightarrow> TypeName ''unknown'')"

section \<open>\<open>Downloader\<close>: configuration and the media filter\<close>

definition VALID_TYPES :: "string set" where
  "VALID_TYPES = {''photo'', ''document'', ''video'', ''audio'', ''sticker'', ''voice'', ''chatphoto''}"

text \<open>
  \<open>max_size\<close> is what \<open>config.getint('MaxSize')\<close> gave (\<open>None\<close> when the key is unset);
  \<open>types\<close> is the set built from \<open>MediaWhitelist\<close>. The filename format is left to the naming
  policy and is not part of the model.
\<close>

record downloader =
  max_size :: "int option"
  types :: "string set"

text \<open>
  \<open>Downloader.__init__\<close>, from the entries of \<open>MediaWhitelist\<close> split at the commas, each
  already stripped and lower-cased: blank entries are left out, an entry outside
  \<open>VALID_TYPES\<close> fails the assertion, and a non-empty set also gets \<open>unknown\<close>.
\<close>

definition Downloader_init :: "int option \<Rightarrow> string list \<Rightarrow> error + downloader" where
  "Downloader_init max_size_cfg whitelist =
     (let ts = set (filter (\<lambda>x. x \<noteq> []) whitelist) in
      if \<not> (\<forall>x \<in> ts. x \<in> VALID_TYPES) then Inl AssertionError
      else Inr \<lparr>max_size = max_size_cfg,
                 types = (if ts \<noteq> {} then insert ''unknown'' ts else ts)\<rparr>)"

text \<open>\<open>x in self.types\<close> for a value \<open>_get_media_type\<close> returned; \<open>False\<close> equals no string.\<close>

fun in_types :: "media_type \<Rightarrow> string set \<Rightarrow> bool" where
  "in_types (TypeName s) ts = (s \<in> ts)"
| "in_types PyFalse ts = False"

text \<open>\<open>not self.max_size\<close>.\<close>

fun not_max_size :: "int option \<Rightarrow> bool" where
  "not_max_size None = True"
| "not_max_size (Some n) = (n = 0)"

definition check_media :: "downloader \<Rightarrow> message_media option \<Rightarrow> bool" where
  "check_media d media =
     (if media = None \<or> not_max_size (max_size d) then False
      else if types d = {} then True
      else in_types (get_media_type media) (types d))"

text \<open>The taxonomy of the data model, in the spec's words.\<close>

definition taxonomy :: "string set" where
  "taxonomy = {''photo'', ''document'', ''video'', ''audio'', ''sticker'', ''voice'', ''chatphoto'', ''unknown''}"

fun is_document_media :: "message_media \<Rightarrow> bool" where
  "is_document_media (MessageMediaDocument _) = True"
| "is_document_media _ = False"

section \<open>\<open>utils.py\<close>: message entities as text\<close>

text \<open>
  The entity classes of \<open>ENTITY_TO_TEXT\<close> with the fields their constructors require:
  offset and length, then the language of a \<open>pre\<close> entity, the URL of a text URL, the user
  id of a mention by name. One more variant stands for every class outside the table.
\<close>

datatype message_entity =
    MessageEntityPre int int string
  | MessageEntityCode int int
  | MessageEntityBold int int
  | MessageEntityItalic int int
  | MessageEntityTextUrl int int string
  | MessageEntityMentionName int int int
  | MessageEntityOther int int

fun ENTITY_TO_TEXT :: "message_entity \<Rightarrow> string option" where
  "ENTITY_TO_TEXT (MessageEntityPre _ _ _) = Some ''pre''"
| "ENTITY_TO_TEXT (MessageEntityCode _ _) = Some ''code''"
| "ENTITY_TO_TEXT (MessageEntityBold _ _) = Some ''bold''"
| "ENTITY_TO_TEXT (MessageEntityItalic _ _) = Some ''italic''"
| "ENTITY_TO_TEXT (MessageEntityTextUrl _ _ _) = Some ''texturl''"
| "ENTITY_TO_TEXT (MessageEntityMentionName _ _ _) = Some ''mentionname''"
| "ENTITY_TO_TEXT (MessageEntityOther _ _) = None"

fun entity_offset :: "message_entity \<Rightarrow> int" where
  "entity_offset (MessageEntityPre offset _ _) = offset"
| "entity_offset (MessageEntityCode offset _) = offset"
| "entity_offset (MessageEntityBold offset _) = offset"
| "entity_offset (MessageEntityItalic offset _) = offset"
| "entity_offset (MessageEntityTextUrl offset _ _) = offset"
| "entity_offset (MessageEntityMentionName offset _ _) = offset"
| "entity_offset (MessageEntityOther offset _) = offset"

fun entity_length :: "message_entity \<Rightarrow> int" where
  "entity_length (MessageEntityPre _ len _) = len"
| "entity_length (MessageEntityCode _ len) = len"
| "entity_length (MessageEntityBold _ len) = len"
| "entity_length (MessageEntityItalic _ len) = len"
| "entity_length (MessageEntityTextUrl _ len _) = len"
| "entity_length (MessageEntityMentionName _ len _) = len"
| "entity_length (MessageEntityOther _ len) = len"

subsection \<open>The string primitives of Python the module uses\<close>

text \<open>\<open>'{}'.format(n)\<close> for an integer: decimal digits, a minus sign for a negative one.\<close>

definition digit_char :: "nat \<Rightarrow> char" where
  "digit_char n = ''0123456789'' ! n"

fun str_nat :: "nat \<Rightarrow> string" where
  "str_nat n = (if n < 10 then [digit_char n] else str_nat (n div 10) @ [digit_char (n mod 10)])"

definition str_int :: "int \<Rightarrow> string" where
  "str_int i = (if i < 0 then CHR ''-'' # str_nat (nat (- i)) else str_nat (nat i))"

text \<open>
  \<open>int(s)\<close>: an optional sign and decimal digits; anything else is a \<open>ValueError\<close>. Python
  also accepts blanks around the number and underscores between digits, which no string
  written by this module contains; the model refuses them.
\<close>

definition digit_table :: "(char \<times> nat) list" where
  "digit_table = zip ''0123456789'' [0, 1, 2, 3, 4, 5, 6, 7, 8, 9]"

definition digit_value :: "char \<Rightarrow> nat option" where
  "digit_value c = map_of digit_table c"

fun parse_digits :: "nat \<Rightarrow> string \<Rightarrow> nat option" where
  "parse_digits acc [] = Some acc"
| "parse_digits acc (c # cs) =
     (case digit_value c of None \<Rightarrow> None | Some d \<Rightarrow> parse_digits (acc * 10 + d) cs)"

definition parse_nat :: "string \<Rightarrow> nat option" where
  "parse_nat s = (if s = [] then None else parse_digits 0 s)"

definition py_int :: "string \<Rightarrow> error + int" where
  "py_int s =
     (case s of
        c # ds \<Rightarrow>
          if c = CHR ''-'' then
            (case parse_nat ds of None \<Rightarrow> Inl ValueError | Some n \<Rightarrow> Inr (- int n))
          else if c = CHR ''+'' then
            (case parse_nat ds of None \<Rightarrow> Inl ValueError | Some n \<Rightarrow> Inr (int n))
          else (case parse_nat s of None \<Rightarrow> Inl ValueError | Some n \<Rightarrow> Inr (int n))
      | [] \<Rightarrow> Inl ValueError)"

text \<open>\<open>s.split(c)\<close> and \<open>c.join(parts)\<close> for a one-character separator.\<close>

fun py_split :: "char \<Rightarrow> string \<Rightarrow> string list" where
  "py_split c [] = [[]]"
| "py_split c (x # xs) =
     (if x = c then [] # py_split c xs
      else (case py_split c xs of p # ps \<Rightarrow> (x # p) # ps | [] \<Rightarrow> [[x]]))"

fun py_join :: "char \<Rightarrow> string list \<Rightarrow> string" where
  "py_join c [] = []"
| "py_join c [p] = p"
| "py_join c (p # q # ps) = p @ c # py_join c (q # ps)"

text \<open>\<open>s.replace(c, rep)\<close> for a one-character pattern.\<close>

definition py_replace :: "char \<Rightarrow> string \<Rightarrow> string \<Rightarrow> string" where
  "py_replace c rep s = concat (map (\<lambda>x. if x = c then rep else [x]) s)"

subsection \<open>\<open>encode_msg_entities\<close>\<close>

text \<open>The text appended for one entity whose class is in \<open>ENTITY_TO_TEXT\<close>.\<close>

fun entity_extra :: "message_entity \<Rightarrow> string" where
  "entity_extra (MessageEntityTextUrl _ _ url) =
     CHR '','' # py_replace CHR '';'' ''%3b'' (py_replace CHR '','' ''%2c'' url)"
| "entity_extra (MessageEntityMentionName _ _ user_id) = CHR '','' # str_int user_id"
| "entity_extra _ = []"

fun encode_parsed :: "message_entity list \<Rightarrow> string list" where
  "encode_parsed [] = []"
| "encode_parsed (entity # entities) =
     (case ENTITY_TO_TEXT entity of
        Some name \<Rightarrow>
          (name @ CHR '','' # str_int (entity_offset entity) @ CHR '','' #
             str_int (entity_length entity) @ entity_extra entity) # encode_parsed entities
      | None \<Rightarrow> encode_parsed entities)"

definition encode_msg_entities :: "message_entity list option \<Rightarrow> string option" where
  "encode_msg_entities entities =
     (case entities of
        None \<Rightarrow> None
      | Some [] \<Rightarrow> None
      | Some es \<Rightarrow> Some (py_join CHR '';'' (encode_parsed es)))"

subsection \<open>\<open>decode_msg_entities\<close>\<close>

text \<open>
  One round of the loop: \<open>Inr None\<close> when the kind is not in \<open>TEXT_TO_ENTITY\<close> and nothing is
  appended. The tuple on the first line of the loop body is evaluated left to right, so a
  missing field or a malformed number raises in that order. The last branch of the source
  calls the class with offset and length alone; the constructor of a \<open>pre\<close> entity also
  requires the language, so for that kind the call raises \<open>TypeError\<close>.
\<close>

definition decode_part :: "string \<Rightarrow> error + message_entity option" where
  "decode_part part =
     (let split = py_split CHR '','' part; kind = split ! 0 in
      if length split < 2 then Inl IndexError
      else case py_int (split ! 1) of
        Inl err \<Rightarrow> Inl err
      | Inr offset \<Rightarrow>
          if length split < 3 then Inl IndexError
          else case py_int (split ! 2) of
            Inl err \<Rightarrow> Inl err
          | Inr len \<Rightarrow>
              if kind = ''texturl'' then Inr (Some (MessageEntityTextUrl offset len (last split)))
              else if kind = ''mentionname'' then
                (case py_int (last split) of
                   Inl err \<Rightarrow> Inl err
                 | Inr user_id \<Rightarrow> Inr (Some (MessageEntityMentionName offset len user_id)))
              else if kind = ''pre'' then Inl TypeError
              else if kind = ''code'' then Inr (Some (MessageEntityCode offset len))
              else if kind = ''bold'' then Inr (Some (MessageEntityBold offset len))
              else if kind = ''italic'' then Inr (Some (MessageEntityItalic offset len))
              else Inr None)"

fun decode_parts :: "string list \<Rightarrow> error + message_entity list" where
  "decode_parts [] = Inr []"
| "decode_parts (part # parts) =
     (case decode_part part of
        Inl err \<Rightarrow> Inl err
      | Inr parsed \<Rightarrow>
          (case decode_parts parts of
             Inl err \<Rightarrow> Inl err
           | Inr rest \<Rightarrow> Inr (case parsed of None \<Rightarrow> rest | Some entity \<Rightarrow> entity # rest)))"

definition decode_msg_entities :: "string option \<Rightarrow> error + message_entity list option" where
  "decode_msg_entities string =
     (case string of
        None \<Rightarrow> Inr None
      | Some [] \<Rightarrow> Inr None
      | Some s \<Rightarrow>
          (case decode_parts (py_split CHR '';'' s) of
             Inl err \<Rightarrow> Inl err
           | Inr parsed \<Rightarrow> Inr (Some parsed)))"

text \<open>
  The two conditions of the round trip: a kind of the table, and a URL free of separators;
  and the one kind of the table whose constructor takes a third field that is never passed.
\<close>

fun supported_kind :: "message_entity \<Rightarrow> bool" where
  "supported_kind (MessageEntityOther _ _) = False"
| "supported_kind _ = True"

fun is_pre :: "message_entity \<Rightarrow> bool" where
  "is_pre (MessageEntityPre _ _ _) = True"
| "is_pre _ = False"

fun url_plain :: "message_entity \<Rightarrow> bool" where
  "url_plain (MessageEntityTextUrl _ _ url) = (CHR '','' \<notin> set url \<and> CHR '';'' \<notin> set url)"
| "url_plain _ = True"

text \<open>The text \<open>encode_msg_entities\<close> writes for one entity of a supported kind.\<close>

definition piece :: "message_entity \<Rightarrow> string" where
  "piece e =
     (case ENTITY_TO_TEXT e of
        Some name \<Rightarrow>
          name @ CHR '','' # str_int (entity_offset e) @ CHR '','' #
            str_int (entity_length e) @ entity_extra e
      | None \<Rightarrow> [])"

section \<open>The storage collaborator, as far as messages go\<close>

text \<open>
  Modelled from the spec: the dumper's message, media, forward and resume tables and the two
  settings \<open>save_messages\<close> reads from it. One
  conversation is archived at a time, so the context id is left out of the keys. A stored
  message keeps the row with its forward id and media id; a stored media keeps the descriptor
  and the location of its blob, which no call of the downloader supplies.
\<close>

datatype stored_message = StoredMessage history_row "int option" "int option"

datatype stored_media = StoredMedia message_media "string option"

text \<open>
  \<open>resume\<close> is the row of the resume table; \<open>resume_log\<close> lists every cursor \<open>save_resume\<close>
  has written and \<open>upsert_log\<close> the id of every message handed to \<open>dump_message\<close> or
  \<open>dump_message_service\<close>, both oldest first.
\<close>

record dumper =
  chunk_size :: int
  max_chunks :: int
  message_rows :: "(int \<times> stored_message) list"
  media_rows :: "(int \<times> stored_media) list"
  forward_rows :: "fwd_header list"
  participant_ids :: "int list"
  resume :: "int \<times> int \<times> int"
  resume_log :: "(int \<times> int \<times> int) list"
  upsert_log :: "int list"
  commits :: nat

text \<open>Modelled from the spec: the remote-assigned id under which a media is filed.\<close>

fun media_key :: "message_media \<Rightarrow> int" where
  "media_key (MessageMediaPhoto (PhotoEmpty i)) = i"
| "media_key (MessageMediaPhoto (Photo i)) = i"
| "media_key (MessageMediaDocument (DocumentEmpty i)) = i"
| "media_key (MessageMediaDocument (Document i _ _)) = i"
| "media_key (MessageMediaOther i) = i"

text \<open>
  Modelled from the spec: \<open>upsertMedia(record) -> mediaId\<close>. The caller passes the descriptor
  alone, so the row's blob location is absent; no media gives no id.
\<close>

definition dump_media :: "message_media option \<Rightarrow> dumper \<Rightarrow> int option \<times> dumper" where
  "dump_media media d =
     (case media of
        None \<Rightarrow> (None, d)
      | Some m \<Rightarrow>
          (Some (media_key m),
           d\<lparr>media_rows := AList.update (media_key m) (StoredMedia m None) (media_rows d)\<rparr>))"

text \<open>Modelled from the spec: a forward header gets a row of its own and that row's number.\<close>

definition dump_forward :: "fwd_header option \<Rightarrow> dumper \<Rightarrow> int option \<times> dumper" where
  "dump_forward fwd d =
     (case fwd of
        None \<Rightarrow> (None, d)
      | Some f \<Rightarrow> (Some (int (length (forward_rows d)) + 1), d\<lparr>forward_rows := forward_rows d @ [f]\<rparr>))"

text \<open>Modelled from the spec: \<open>upsertMessage(record)\<close>, idempotent on the message id.\<close>

definition dump_message :: "history_row \<Rightarrow> int option \<Rightarrow> int option \<Rightarrow> dumper \<Rightarrow> dumper" where
  "dump_message m forward_id media_id d =
     d\<lparr>message_rows := AList.update (row_id m) (StoredMessage m forward_id media_id) (message_rows d),
        upsert_log := upsert_log d @ [row_id m]\<rparr>"

text \<open>Modelled from the spec: a service message is upserted like a message, with no forward.\<close>

definition dump_message_service :: "history_row \<Rightarrow> int option \<Rightarrow> dumper \<Rightarrow> dumper" where
  "dump_message_service m media_id d = dump_message m None media_id d"

text \<open>
  Modelled from the spec: \<open>getResumeCursor\<close> and \<open>saveResumeCursor\<close>. At the two call sites
  that pass \<open>stop_at\<close> alone the offset and its date fall back to 0, which is what the
  source's comment there says the next run starts from.
\<close>

definition get_resume :: "dumper \<Rightarrow> int \<times> int \<times> int" where
  "get_resume d = resume d"

definition save_resume :: "int \<Rightarrow> int \<Rightarrow> int \<Rightarrow> dumper \<Rightarrow> dumper" where
  "save_resume msg msg_date stop d =
     d\<lparr>resume := (msg, msg_date, stop), resume_log := resume_log d @ [(msg, msg_date, stop)]\<rparr>"

text \<open>
  Modelled from the spec: the current maximum persisted message id, \<open>get_message_id(target_id,
  'MAX')\<close>; 0 for a table without rows (message ids are positive).
\<close>

definition get_message_id_MAX :: "dumper \<Rightarrow> int" where
  "get_message_id_MAX d =
     (case map fst (message_rows d) of [] \<Rightarrow> 0 | k # ks \<Rightarrow> fold max ks k)"

text \<open>
  Modelled from the spec: \<open>getPersistedMessageCount\<close>, the participant list handed to
  \<open>getParticipantDelta\<close>, and \<open>commit\<close>, of which the model keeps the number of calls.
\<close>

definition get_message_count :: "dumper \<Rightarrow> int" where
  "get_message_count d = int (length (message_rows d))"

definition dump_participants_delta :: "int list \<Rightarrow> dumper \<Rightarrow> dumper" where
  "dump_participants_delta ids d = d\<lparr>participant_ids := ids\<rparr>"

definition commit :: "dumper \<Rightarrow> dumper" where
  "commit d = d\<lparr>commits := commits d + 1\<rparr>"

section \<open>\<open>Downloader.download_media\<close>\<close>

text \<open>
  The three early returns of \<open>download_media\<close>, then the call of the remote. The file name is
  the naming policy's business and is not computed.
\<close>

fun download_media :: "remote \<Rightarrow> int \<Rightarrow> message_media option \<Rightarrow> error + string option" where
  "download_media r mid (Some (MessageMediaPhoto (PhotoEmpty _))) = Inr None"
| "download_media r mid (Some (MessageMediaPhoto (Photo _))) = download_media_file r mid"
| "download_media r mid (Some (MessageMediaDocument (DocumentEmpty _))) = Inr None"
| "download_media r mid (Some (MessageMediaDocument (Document _ _ _))) = download_media_file r mid"
| "download_media r mid _ = Inr None"

section \<open>\<open>Downloader.save_messages\<close>\<close>

text \<open>
  The variables of \<open>save_messages\<close> that outlive one round of its loop: the offset of the
  request, \<open>stop_at\<close>, \<open>chunks_left\<close>, \<open>found\<close>, the entity downloader and the dumper.
  \<open>requests\<close> counts the history requests sent so far.
\<close>

record sync =
  offset_id :: int
  offset_date :: int
  stop_at :: int
  chunks_left :: int
  found :: int
  requests :: nat
  queue :: entity_downloader
  db :: dumper

text \<open>
  The body of \<open>for m in history.messages\<close> for one row. The media is downloaded first when
  the filter accepts it, and the value \<open>download_media\<close> returns is dropped; an exception of
  the download leaves the loop before anything is written for the row.
\<close>

fun dump_row ::
  "remote \<Rightarrow> downloader \<Rightarrow> entity \<Rightarrow> entity_downloader \<Rightarrow> history_row \<Rightarrow> dumper \<Rightarrow> (unit, dumper) outcome" where
  "dump_row r dl target q (Message i date media fwd_from) d =
     (case (if check_media dl media then download_media r i media else Inr None) of
        Inl err \<Rightarrow> Raised err d
      | Inr _ \<Rightarrow>
          (let (fwd_id, d1) = dump_forward fwd_from d;
               (media_id, d2) = dump_media media d1
           in Returned () (dump_message (Message i date media fwd_from) fwd_id media_id d2)))"
| "dump_row r dl target q (MessageService i date (MessageActionChatEditPhoto p)) d =
     (let (media_id, d1) = dump_media (Some (MessageMediaPhoto p)) d in
      case download_profile_photo r q target (Some i) of
        Some err \<Rightarrow> Raised err d1
      | None \<Rightarrow>
          Returned () (dump_message_service (MessageService i date (MessageActionChatEditPhoto p)) media_id d1))"
| "dump_row r dl target q (MessageService i date MessageActionOther) d =
     Returned () (dump_message_service (MessageService i date MessageActionOther) None d)"
| "dump_row r dl target q (MessageEmpty i) d = Returned () d"

fun dump_rows ::
  "remote \<Rightarrow> downloader \<Rightarrow> entity \<Rightarrow> entity_downloader \<Rightarrow> history_row list \<Rightarrow> dumper \<Rightarrow> (unit, dumper) outcome" where
  "dump_rows r dl target q [] d = Returned () d"
| "dump_rows r dl target q (m # ms) d =
     (case dump_row r dl target q m d of
        Raised err d1 \<Rightarrow> Raised err d1
      | Returned _ d1 \<Rightarrow> dump_rows r dl target q ms d1)"

text \<open>\<open>min(m.date for m in history.messages)\<close>: a row without a date raises.\<close>

fun min_date :: "history_row list \<Rightarrow> error + int" where
  "min_date [] = Inl ValueError"
| "min_date [m] = (case row_date m of None \<Rightarrow> Inl AttributeError | Some t \<Rightarrow> Inr t)"
| "min_date (m # ms) =
     (case row_date m of
        None \<Rightarrow> Inl AttributeError
      | Some t \<Rightarrow> (case min_date ms of Inl err \<Rightarrow> Inl err | Inr u \<Rightarrow> Inr (min t u)))"

text \<open>
  From \<open>total_messages = ...\<close> to the two assignments of the offset: \<open>found\<close> and the offset
  move only when the page holds messages.
\<close>

definition advance_offset :: "history \<Rightarrow> sync \<Rightarrow> (unit, sync) outcome" where
  "advance_offset h st =
     (let total_messages = (case h_count h of Some c \<Rightarrow> c | None \<Rightarrow> int (length (h_messages h))) in
      if h_messages h = [] then Returned () st
      else
        (let st1 = st\<lparr>found := min (found st + int (length (h_messages h))) total_messages,
                      offset_id := min_list (map row_id (h_messages h))\<rparr>
         in case min_date (h_messages h) of
              Inl err \<Rightarrow> Raised err st1
            | Inr t \<Rightarrow> Returned () (st1\<lparr>offset_date := t\<rparr>)))"

text \<open>
  The loop body from the reply to the advanced offset: queue the entities of the page, pop
  one pending entity, write the rows, move the offset.
\<close>

definition process_page :: "remote \<Rightarrow> downloader \<Rightarrow> entity \<Rightarrow> history \<Rightarrow> sync \<Rightarrow> (unit, sync) outcome" where
  "process_page r dl target h st =
     (case extend_pending r (h_users h @ h_chats h) (queue st) of
        Raised err q1 \<Rightarrow> Raised err (st\<lparr>queue := q1\<rparr>)
      | Returned _ q1 \<Rightarrow>
          (case pop_pending r q1 of
             Raised err q2 \<Rightarrow> Raised err (st\<lparr>queue := q2\<rparr>)
           | Returned _ q2 \<Rightarrow>
               (case dump_rows r dl target q2 (h_messages h) (db st) of
                  Raised err d1 \<Rightarrow> Raised err (st\<lparr>queue := q2, db := d1\<rparr>)
                | Returned _ d1 \<Rightarrow> advance_offset h (st\<lparr>queue := q2, db := d1\<rparr>))))"

text \<open>
  The rest of the loop body, for a page of \<open>n\<close> messages: the three ways the loop ends and the
  one way it goes on. The result says whether the loop breaks.
\<close>

definition checkpoint :: "int \<Rightarrow> sync \<Rightarrow> bool \<times> sync" where
  "checkpoint n st =
     (if n < chunk_size (db st) then
        (True, st\<lparr>db := save_resume 0 0 (get_message_id_MAX (db st)) (db st)\<rparr>)
      else if offset_id st \<le> stop_at st then
        (True, st\<lparr>db := save_resume 0 0 (get_message_id_MAX (db st)) (db st)\<rparr>)
      else
        (let st1 = st\<lparr>db := save_resume (offset_id st) (offset_date st) (stop_at st) (db st),
                      chunks_left := chunks_left st - 1\<rparr>
         in if chunks_left st1 = 0 then (True, st1)
            else (False, st1\<lparr>db := commit (db st1)\<rparr>)))"

text \<open>
  \<open>while True\<close>: one history request per round. The loop has no bound of its own, so the
  model counts rounds down from \<open>fuel\<close> and has no result when they run out.
\<close>

fun paging :: "remote \<Rightarrow> downloader \<Rightarrow> entity \<Rightarrow> nat \<Rightarrow> sync \<Rightarrow> (unit, sync) outcome option" where
  "paging r dl target 0 st = None"
| "paging r dl target (Suc fuel) st =
     (case get_history r (requests st) (offset_id st) (offset_date st) (chunk_size (db st)) of
        Inl err \<Rightarrow> Some (Raised err (st\<lparr>requests := requests st + 1\<rparr>))
      | Inr h \<Rightarrow>
          (case process_page r dl target h (st\<lparr>requests := requests st + 1\<rparr>) of
             Raised err st1 \<Rightarrow> Some (Raised err st1)
           | Returned _ st1 \<Rightarrow>
               (case checkpoint (int (length (h_messages h))) st1 of
                  (True, st2) \<Rightarrow> Some (Returned () st2)
                | (False, st2) \<Rightarrow> paging r dl target fuel st2)))"

text \<open>\<open>while entity_downloader\<close>: pop until the queue is empty, committing after each pop.\<close>

function drain :: "remote \<Rightarrow> sync \<Rightarrow> (unit, sync) outcome" where
  "drain r st =
     (if \<not> queue_bool (queue st) then Returned () st
      else case pop_pending r (queue st) of
             Raised err q1 \<Rightarrow> Raised err (st\<lparr>queue := q1\<rparr>)
           | Returned _ q1 \<Rightarrow> drain r (st\<lparr>queue := q1, db := commit (db st)\<rparr>))"
  by pat_completeness auto
termination
proof (relation "measure (\<lambda>(r, st). length (pending (queue st)))", goal_cases)
  case 1
  show ?case by simp
next
  case (2 r st x q1)
  then obtain e rest where p: "pending (queue st) = e # rest"
    by (cases "pending (queue st)") (auto simp: queue_bool_def)
  with 2 have "pending q1 = rest"
    by (cases e)
       (auto simp: pop_pending_def dump_entity_def mark_dumped_def add_row_def Let_def
          split: option.splits)
  with p show ?case by simp
qed

text \<open>
  The part of \<open>save_messages\<close> before the loop. The target is taken as already resolved,
  and the media format as a non-empty string, so that the entity downloader gets a photo
  format exactly when \<open>chatphoto\<close> is among the types. Participants are listed when the
  input peer is a chat or a channel; \<open>ChatAdminRequiredError\<close> is the one exception caught.
\<close>

fun wants_participants :: "entity \<Rightarrow> bool" where
  "wants_participants (Chat _) = True"
| "wants_participants (Channel _ _ _) = True"
| "wants_participants (ChatEmpty _) = True"
| "wants_participants (ChatForbidden _) = True"
| "wants_participants (ChannelForbidden _) = True"
| "wants_participants _ = False"

definition list_participants :: "remote \<Rightarrow> entity \<Rightarrow> dumper \<Rightarrow> (unit, dumper) outcome" where
  "list_participants r target d =
     (if wants_participants target then
        (case get_participants r of
           Inr ids \<Rightarrow> Returned () (dump_participants_delta ids d)
         | Inl ChatAdminRequiredError \<Rightarrow> Returned () d
         | Inl err \<Rightarrow> Raised err d)
      else Returned () d)"

definition start_sync :: "remote \<Rightarrow> downloader \<Rightarrow> entity \<Rightarrow> dumper \<Rightarrow> (unit, sync) outcome" where
  "start_sync r dl target d =
     (let q0 = entity_downloader_init (''chatphoto'' \<in> types dl) [];
          st0 = \<lparr>offset_id = 0, offset_date = 0, stop_at = 0, chunks_left = max_chunks d,
                 found = 0, requests = 0, queue = q0, db = d\<rparr>
      in case extend_pending r [target] q0 of
           Raised err q1 \<Rightarrow> Raised err (st0\<lparr>queue := q1\<rparr>)
         | Returned _ q1 \<Rightarrow>
             (case list_participants r target d of
                Raised err d1 \<Rightarrow> Raised err (st0\<lparr>queue := q1, db := d1\<rparr>)
              | Returned _ d1 \<Rightarrow>
                  (case get_resume d1 of
                     (msg, msg_date, stop) \<Rightarrow>
                       Returned ()
                         (st0\<lparr>offset_id := msg, offset_date := msg_date, stop_at := stop,
                               found := get_message_count d1, queue := q1, db := d1\<rparr>))))"

text \<open>\<open>save_messages\<close>: start, page, commit, drain.\<close>

definition save_messages ::
  "remote \<Rightarrow> downloader \<Rightarrow> entity \<Rightarrow> dumper \<Rightarrow> nat \<Rightarrow> (unit, sync) outcome option" where
  "save_messages r dl target d fuel =
     (case start_sync r dl target d of
        Raised err st \<Rightarrow> Some (Raised err st)
      | Returned _ st \<Rightarrow>
          (case paging r dl target fuel st of
             None \<Rightarrow> None
           | Some (Raised err st1) \<Rightarrow> Some (Raised err st1)
           | Some (Returned _ st1) \<Rightarrow> Some (drain r (st1\<lparr>db := commit (db st1)\<rparr>))))"

text \<open>The state an outcome carries.\<close>

fun final :: "('a, 's) outcome \<Rightarrow> 's" where
  "final (Returned _ s) = s"
| "final (Raised _ s) = s"

subsection \<open>Frames\<close>

text \<open>The parts of the dumper that writing rows leaves untouched.\<close>

definition same_frame :: "dumper \<Rightarrow> dumper \<Rightarrow> bool" where
  "same_frame d d' =
     (chunk_size d' = chunk_size d \<and> max_chunks d' = max_chunks d \<and> resume d' = resume d \<and>
      resume_log d' = resume_log d \<and> commits d' = commits d)"

subsection \<open>Cursors and the remote's contract\<close>

text \<open>
  A resume cursor is the triple (offset id, offset date, stop-at). \<open>cursor_le c c'\<close> says
  that \<open>c'\<close> may follow \<open>c\<close>: its offset id is not higher and its stop-at is not lower.
\<close>

definition cursor_le :: "int \<times> int \<times> int \<Rightarrow> int \<times> int \<times> int \<Rightarrow> bool" where
  "cursor_le c c' = (fst c' \<le> fst c \<and> snd (snd c) \<le> snd (snd c'))"

text \<open>
  The contract of the remote that the data model relies on: message ids are positive, and a
  page asked for below a non-zero offset holds no id above that offset.
\<close>

definition history_contract :: "remote \<Rightarrow> bool" where
  "history_contract r =
     (\<forall>n off date lim h. get_history r n off date lim = Inr h \<longrightarrow>
        (\<forall>m \<in> set (h_messages h). 0 < row_id m \<and> (off \<noteq> 0 \<longrightarrow> row_id m \<le> off)))"

subsection \<open>A simulated history\<close>

text \<open>
  A remote that holds the given rows, newest first, and answers every request with the
  newest rows below the offset (all rows for offset 0), at most \<open>limit\<close> of them; a dumper
  with empty tables; and content messages without media, dated ten times their id.
\<close>

definition serve :: "history_row list \<Rightarrow> nat \<Rightarrow> int \<Rightarrow> int \<Rightarrow> int \<Rightarrow> error + history" where
  "serve msgs n off date lim =
     Inr \<lparr>h_messages = take (nat lim) (filter (\<lambda>m. off = 0 \<or> row_id m < off) msgs),
          h_users = [], h_chats = [], h_count = Some (int (length msgs))\<rparr>"

definition simulated_remote :: "history_row list \<Rightarrow> remote" where
  "simulated_remote msgs = quiet_remote\<lparr>get_history := serve msgs\<rparr>"

definition empty_dumper :: "int \<Rightarrow> int \<Rightarrow> dumper" where
  "empty_dumper chunk chunks =
     \<lparr>chunk_size = chunk, max_chunks = chunks, message_rows = [], media_rows = [],
        forward_rows = [], participant_ids = [], resume = (0, 0, 0), resume_log = [],
        upsert_log = [], commits = 0\<rparr>"

definition plain_messages :: "int list \<Rightarrow> history_row list" where
  "plain_messages ids = map (\<lambda>i. Message i (10 * i) None None) ids"

text \<open>
  The state at the head of the loop for a given cursor and dumper, with an empty queue, and
  the one page that the simulated history of three messages has.
\<close>

definition loop_entry :: "int \<Rightarrow> int \<Rightarrow> int \<Rightarrow> dumper \<Rightarrow> sync" where
  "loop_entry msg msg_date stop d =
     \<lparr>offset_id = msg, offset_date = msg_date, stop_at = stop, chunks_left = max_chunks d,
        found = get_message_count d, requests = 0, queue = entity_downloader_init False [], db = d\<rparr>"

definition three_page :: history where
  "three_page = \<lparr>h_messages = plain_messages [3, 2, 1], h_users = [], h_chats = [], h_count = Some 3\<rparr>"

text \<open>
  A dumper left by an earlier completed run: the given messages are stored and the cursor is
  (0, 0, stop).
\<close>

definition resumed_dumper :: "int \<Rightarrow> int \<Rightarrow> int list \<Rightarrow> int \<Rightarrow> dumper" where
  "resumed_dumper chunk chunks ids stop =
     (empty_dumper chunk chunks)
       \<lparr>message_rows := map (\<lambda>i. (i, StoredMessage (Message i (10 * i) None None) None None)) ids,
        resume := (0, 0, stop)\<rparr>"

text \<open>
  The remote of the termination property: every later request that asks below \<open>stop + 1\<close> is
  answered with ids that are at most \<open>stop\<close>, the ids seen by the earlier run.
  \<open>from_extra_reply r k stop i\<close> says that \<open>i\<close> is an id in a reply to request number \<open>k + 1\<close>
  asked below \<open>stop + 1\<close>.
\<close>

definition later_replies_seen :: "remote \<Rightarrow> nat \<Rightarrow> int \<Rightarrow> bool" where
  "later_replies_seen r k stop =
     (\<forall>n date lim h. k < n \<longrightarrow> get_history r n (stop + 1) date lim = Inr h \<longrightarrow>
        (\<forall>m \<in> set (h_messages h). row_id m \<le> stop))"

definition from_extra_reply :: "remote \<Rightarrow> nat \<Rightarrow> int \<Rightarrow> int \<Rightarrow> bool" where
  "from_extra_reply r k stop i =
     (\<exists>date lim h. get_history r (Suc k) (stop + 1) date lim = Inr h \<and>
        i \<in> row_id ` set (h_messages h))"

text \<open>
  The rows \<open>save_messages\<close> hands to the dumper: content messages and service messages; any
  other row is skipped with a warning. \<open>upserted_ids\<close> lists their ids in the order of the page.
\<close>

fun upserted :: "history_row \<Rightarrow> bool" where
  "upserted (Message _ _ _ _) = True"
| "upserted (MessageService _ _ _) = True"
| "upserted (MessageEmpty _) = False"

definition upserted_ids :: "history \<Rightarrow> int list" where
  "upserted_ids h = map row_id (filter upserted (h_messages h))"

text \<open>
  A simulated history whose media downloads all raise, and the exception an outcome carries.
\<close>

definition refusing_remote :: "history_row list \<Rightarrow> remote" where
  "refusing_remote msgs = (simulated_remote msgs)\<lparr>download_media_file := (\<lambda>_. Inl RPCError)\<rparr>"

definition raised_error :: "('a, 's) outcome \<Rightarrow> error option" where
  "raised_error out = (case out of Raised err _ \<Rightarrow> Some err | Returned _ _ \<Rightarrow> None)"

text \<open>
  The part of the invariant that needs nothing of the peer ids: the two sets of ids share
  no element, and the ids in \<open>D\<close> stay dumped.
\<close>

definition sets_apart :: "int set \<Rightarrow> entity_downloader \<Rightarrow> bool" where
  "sets_apart D q = (pending_ids q \<inter> dumped_ids q = {} \<and> D \<subseteq> dumped_ids q)"

section \<open>Properties of the entity queue\<close>

lemma enqueue_inv:
  "queue_inv r U q \<Longrightarrow> e \<in> U \<Longrightarrow> is_user_or_channel e \<Longrightarrow> queue_inv r U (enqueue r e q)"
  by (auto simp: queue_inv_def enqueue_def Let_def)

lemma enqueue_dumped: "dumped_ids (enqueue r e q) = dumped_ids q"
  by (simp add: enqueue_def Let_def)

lemma dump_entity_Returned:
  "dump_entity r e q = Returned n q' \<Longrightarrow>
     pending q' = pending q \<and> pending_ids q' = pending_ids q - {get_peer_id r e} \<and>
     dumped_ids q' = insert (get_peer_id r e) (dumped_ids q) \<and> photo_fmt q' = photo_fmt q"
  by (cases e)
     (auto simp: dump_entity_def mark_dumped_def add_row_def Let_def split: option.splits)

lemma dump_chat_inv:
  assumes "queue_inv r U q" "apart r U" "Chat i \<in> U" "dump_entity r (Chat i) q = Returned n q'"
  shows "queue_inv r U q' \<and> dumped_ids q \<subseteq> dumped_ids q'"
proof -
  have "get_peer_id r (Chat i) \<notin> get_peer_id r ` set (pending q)"
  proof
    assume "get_peer_id r (Chat i) \<in> get_peer_id r ` set (pending q)"
    then obtain e where e: "e \<in> set (pending q)" "get_peer_id r (Chat i) = get_peer_id r e"
      by blast
    from e(1) assms(1) have "e \<in> U" "is_user_or_channel e"
      by (auto simp: queue_inv_def)
    with assms(2,3) e(2) show False
      by (simp add: apart_def)
  qed
  with assms(1) have fresh: "get_peer_id r (Chat i) \<notin> pending_ids q"
    by (simp add: queue_inv_def)
  from dump_entity_Returned [OF assms(4)] fresh have
    "pending q' = pending q" "pending_ids q' = pending_ids q"
    "dumped_ids q' = insert (get_peer_id r (Chat i)) (dumped_ids q)"
    by simp_all
  with assms(1) fresh show ?thesis
    by (simp add: queue_inv_def) blast
qed

lemma extend_pending_inv:
  "queue_inv r U q \<Longrightarrow> apart r U \<Longrightarrow> set es \<subseteq> U \<Longrightarrow> extend_pending r es q = Returned u q'
    \<Longrightarrow> queue_inv r U q' \<and> dumped_ids q \<subseteq> dumped_ids q'"
proof (induction es arbitrary: q)
  case Nil
  then show ?case by simp
next
  case (Cons e es)
  from Cons.prems(3) have eU: "e \<in> U" and esU: "set es \<subseteq> U" by auto
  have skip: ?case if "extend_pending r (e # es) q = extend_pending r es q"
    using Cons.IH [OF Cons.prems(1,2) esU] Cons.prems(4) that by simp
  have queue: ?case
    if "extend_pending r (e # es) q = extend_pending r es (enqueue r e q)" "is_user_or_channel e"
  proof -
    have "queue_inv r U (enqueue r e q)"
      using Cons.prems(1) eU that(2) by (rule enqueue_inv)
    from Cons.IH [OF this Cons.prems(2) esU] Cons.prems(4) that(1) show ?thesis
      by (simp add: enqueue_dumped)
  qed
  show ?case
  proof (cases e)
    case (User i d m)
    show ?thesis
    proof (cases "d \<or> m")
      case True
      with User have "extend_pending r (e # es) q = extend_pending r es q" by simp
      then show ?thesis by (rule skip)
    next
      case False
      with User have "extend_pending r (e # es) q = extend_pending r es (enqueue r e q)" by simp
      moreover from User have "is_user_or_channel e" by simp
      ultimately show ?thesis by (rule queue)
    qed
  next
    case (Chat i)
    with Cons.prems obtain n q1 where d: "dump_entity r (Chat i) q = Returned n q1"
      and rest: "extend_pending r es q1 = Returned u q'"
      by (auto split: outcome.splits)
    from dump_chat_inv [OF Cons.prems(1,2) _ d] eU Chat
    have "queue_inv r U q1" "dumped_ids q \<subseteq> dumped_ids q1" by auto
    with Cons.IH [OF _ Cons.prems(2) esU rest] show ?thesis by auto
  next
    case (Channel i l g)
    show ?thesis
    proof (cases l)
      case True
      with Channel have "extend_pending r (e # es) q = extend_pending r es q" by simp
      then show ?thesis by (rule skip)
    next
      case False
      with Channel have "extend_pending r (e # es) q = extend_pending r es (enqueue r e q)" by simp
      moreover from Channel have "is_user_or_channel e" by simp
      ultimately show ?thesis by (rule queue)
    qed
  qed (simp_all add: skip)
qed

lemma pop_pending_inv:
  assumes "queue_inv r U q" "pop_pending r q = Returned n q'"
  shows "queue_inv r U q' \<and> dumped_ids q \<subseteq> dumped_ids q'"
proof (cases "pending q")
  case Nil
  with assms show ?thesis by (simp add: pop_pending_def)
next
  case (Cons e rest)
  from assms(1) Cons have fresh: "get_peer_id r e \<notin> get_peer_id r ` set rest"
    by (auto simp: queue_inv_def)
  from assms(1) Cons have ids: "pending_ids q = insert (get_peer_id r e) (get_peer_id r ` set rest)"
    by (auto simp: queue_inv_def)
  from assms(2) Cons have d: "dump_entity r e (q\<lparr>pending := rest\<rparr>) = Returned n q'"
    by (simp add: pop_pending_def)
  from dump_entity_Returned [OF d] have
    p: "pending q' = rest" and
    pi: "pending_ids q' = pending_ids q - {get_peer_id r e}" and
    di: "dumped_ids q' = insert (get_peer_id r e) (dumped_ids q)"
    by simp_all
  from ids fresh pi have pi': "pending_ids q' = get_peer_id r ` set rest" by auto
  show ?thesis
    using assms(1) Cons fresh p pi' di unfolding queue_inv_def by auto
qed


lemma queue_run_inv:
  "queue_inv r U q \<Longrightarrow> apart r U \<Longrightarrow> set (offered xs) \<subseteq> U \<Longrightarrow> queue_run r xs q = Returned u q'
    \<Longrightarrow> queue_inv r U q' \<and> dumped_ids q \<subseteq> dumped_ids q'"
proof (induction xs arbitrary: q)
  case Nil
  then show ?case by simp
next
  case (Cons x xs)
  from Cons.prems(4) obtain q1 where st: "queue_step r x q = Returned () q1"
    and rest: "queue_run r xs q1 = Returned u q'"
    by (auto split: outcome.splits)
  have "queue_inv r U q1 \<and> dumped_ids q \<subseteq> dumped_ids q1"
  proof (cases x)
    case (Offer es)
    with Cons.prems(3) have "set es \<subseteq> U" by simp
    with Offer st extend_pending_inv [OF Cons.prems(1,2), of es "()" q1] show ?thesis by simp
  next
    case PopOne
    with st obtain n where "pop_pending r q = Returned n q1"
      by (auto split: outcome.splits)
    with pop_pending_inv [OF Cons.prems(1)] show ?thesis by simp
  qed
  moreover have "set (offered xs) \<subseteq> U" using Cons.prems(3) by (cases x) auto
  ultimately show ?case using Cons.IH [OF _ Cons.prems(2) _ rest] by blast
qed

lemma queue_inv_init: "queue_inv r U (entity_downloader_init fmt rows)"
  by (simp add: queue_inv_def entity_downloader_init_def)

lemma queue_inv_counts:
  assumes "queue_inv r U q"
  shows "queue_len q = card (pending_ids q)" "total_count q = queue_len q + dumped_count q"
proof -
  from assms have "card (get_peer_id r ` set (pending q)) = length (pending q)"
    using distinct_card [of "map (get_peer_id r) (pending q)"] by (simp add: queue_inv_def)
  with assms show "queue_len q = card (pending_ids q)"
    by (simp add: queue_inv_def queue_len_def)
  then show "total_count q = queue_len q + dumped_count q"
    by (simp add: total_count_def dumped_count_def)
qed

lemma offered_append: "offered (xs @ ys) = offered xs @ offered ys"
  by (induction xs rule: offered.induct) simp_all

lemma chats_apart_apart: "chats_apart r es = apart r (set es)"
  by (simp add: chats_apart_def apart_def)

lemmas queue_evals =
  quiet_remote_def entity_downloader_init_def enqueue_def dump_entity_def pop_pending_def
  mark_dumped_def add_row_def download_profile_photo_def Let_def insert_commute

lemma enqueue_sets_apart: "sets_apart D q \<Longrightarrow> sets_apart D (enqueue r e q)"
  by (auto simp: sets_apart_def enqueue_def Let_def)

lemma dump_entity_sets_apart:
  "sets_apart D q \<Longrightarrow> dump_entity r e q = Returned n q' \<Longrightarrow> sets_apart D q'"
  by (drule dump_entity_Returned) (auto simp: sets_apart_def)

lemma extend_pending_sets_apart:
  "sets_apart D q \<Longrightarrow> extend_pending r es q = Returned u q' \<Longrightarrow> sets_apart D q'"
proof (induction es arbitrary: q)
  case Nil
  then show ?case by simp
next
  case (Cons e es)
  show ?case
  proof (cases e)
    case (User i d m)
    with Cons.prems Cons.IH [of q] Cons.IH [of "enqueue r e q"] show ?thesis
      by (cases "d \<or> m") (simp_all add: enqueue_sets_apart)
  next
    case (Chat i)
    with Cons.prems obtain n q1 where d: "dump_entity r (Chat i) q = Returned n q1"
      and rest: "extend_pending r es q1 = Returned u q'"
      by (auto split: outcome.splits)
    from Cons.IH [OF dump_entity_sets_apart [OF Cons.prems(1) d] rest] show ?thesis .
  next
    case (Channel i l g)
    with Cons.prems Cons.IH [of q] Cons.IH [of "enqueue r e q"] show ?thesis
      by (cases l) (simp_all add: enqueue_sets_apart)
  qed (use Cons.prems Cons.IH [of q] in simp_all)
qed

lemma pop_pending_sets_apart:
  "sets_apart D q \<Longrightarrow> pop_pending r q = Returned n q' \<Longrightarrow> sets_apart D q'"
proof (cases "pending q")
  case Nil
  assume "sets_apart D q" "pop_pending r q = Returned n q'"
  with Nil show ?thesis by (simp add: pop_pending_def)
next
  case (Cons e rest)
  assume a: "sets_apart D q" "pop_pending r q = Returned n q'"
  from a(1) have "sets_apart D (q\<lparr>pending := rest\<rparr>)" by (simp add: sets_apart_def)
  moreover from a(2) Cons have "dump_entity r e (q\<lparr>pending := rest\<rparr>) = Returned n q'"
    by (simp add: pop_pending_def)
  ultimately show ?thesis by (rule dump_entity_sets_apart)
qed

lemma queue_run_sets_apart:
  "sets_apart D q \<Longrightarrow> queue_run r xs q = Returned u q' \<Longrightarrow> sets_apart D q'"
proof (induction xs arbitrary: q)
  case Nil
  then show ?case by simp
next
  case (Cons x xs)
  from Cons.prems(2) obtain q1 where st: "queue_step r x q = Returned () q1"
    and rest: "queue_run r xs q1 = Returned u q'"
    by (auto split: outcome.splits)
  have "sets_apart D q1"
  proof (cases x)
    case (Offer es)
    with st extend_pending_sets_apart [OF Cons.prems(1), of r es "()" q1] show ?thesis by simp
  next
    case PopOne
    with st obtain n where "pop_pending r q = Returned n q1"
      by (auto split: outcome.splits)
    from pop_pending_sets_apart [OF Cons.prems(1) this] show ?thesis .
  qed
  from Cons.IH [OF this rest] show ?case .
qed

text \<open>
  Claim C4. Start from an empty queue and run any sequence of \<open>Offer\<close> and \<open>PopOne\<close>
  operations that return, split anywhere into \<open>xs\<close> and \<open>ys\<close>. At the end no peer id is in
  both the pending ids and the dumped ids, and every id dumped after \<open>xs\<close> is still dumped
  and is not among the pending ids. If moreover no basic group among the offered entities
  shares its peer id with an offered user or channel, no entity in the deque has a dumped
  id, the deque is as long as the set of pending ids is large, and \<open>total_count\<close> is the
  length of the queue plus \<open>dumped_count\<close>.
\<close>

theorem queue_invariant:
  assumes "queue_run r xs (entity_downloader_init fmt rows) = Returned () q1"
    and "queue_run r ys q1 = Returned () q2"
  shows "pending_ids q2 \<inter> dumped_ids q2 = {} \<and>
         dumped_ids q1 \<subseteq> dumped_ids q2 \<and>
         dumped_ids q1 \<inter> pending_ids q2 = {} \<and>
         (chats_apart r (offered (xs @ ys)) \<longrightarrow>
            dumped_ids q1 \<inter> get_peer_id r ` set (pending q2) = {} \<and>
            queue_len q2 = card (pending_ids q2) \<and>
            total_count q2 = queue_len q2 + dumped_count q2)"
proof -
  have "sets_apart {} (entity_downloader_init fmt rows)"
    by (simp add: sets_apart_def entity_downloader_init_def)
  from queue_run_sets_apart [OF this assms(1)] have "sets_apart (dumped_ids q1) q1"
    by (simp add: sets_apart_def)
  from queue_run_sets_apart [OF this assms(2)]
  have dis: "pending_ids q2 \<inter> dumped_ids q2 = {}" and mono: "dumped_ids q1 \<subseteq> dumped_ids q2"
    by (simp_all add: sets_apart_def)
  then have dp: "dumped_ids q1 \<inter> pending_ids q2 = {}" by blast
  have "dumped_ids q1 \<inter> get_peer_id r ` set (pending q2) = {} \<and>
        queue_len q2 = card (pending_ids q2) \<and>
        total_count q2 = queue_len q2 + dumped_count q2"
    if "chats_apart r (offered (xs @ ys))"
  proof -
    let ?U = "set (offered (xs @ ys))"
    have ap: "apart r ?U" using that by (simp add: chats_apart_apart)
    have "queue_inv r ?U q1"
      using queue_run_inv [OF queue_inv_init ap _ assms(1)] by (simp add: offered_append)
    from queue_run_inv [OF this ap _ assms(2)]
    have inv: "queue_inv r ?U q2" by (simp add: offered_append)
    then have "get_peer_id r ` set (pending q2) = pending_ids q2" by (simp add: queue_inv_def)
    with dp queue_inv_counts [OF inv] show ?thesis by simp
  qed
  with dis mono dp show ?thesis by blast
qed

theorem queue_invariant_witness:
  "chats_apart quiet_remote
     (offered ([Offer [User 1 False False, Chat 2, Channel 3 False True, User 4 True False], PopOne] @
               [Offer [User 1 False False, Chat 2, User 5 False False], PopOne])) \<and>
   queue_run quiet_remote
     [Offer [User 1 False False, Chat 2, Channel 3 False True, User 4 True False], PopOne]
     (entity_downloader_init False []) =
   Returned ()
     \<lparr>photo_fmt = False, pending = [Channel 3 False True], pending_ids = {- 1000000000003},
        dumped_ids = {1, - 2}, entity_rows = [ChatRow (Chat 2), UserRow (User 1 False False)]\<rparr> \<and>
   total_count
     \<lparr>photo_fmt = False, pending = [User 5 False False], pending_ids = {5},
        dumped_ids = {1, - 2, - 1000000000003},
        entity_rows = [ChatRow (Chat 2), UserRow (User 1 False False), ChatRow (Chat 2),
                       SupergroupRow (Channel 3 False True)]\<rparr> = 1 + 3"
proof -
  let ?xs = "[Offer [User 1 False False, Chat 2, Channel 3 False True, User 4 True False], PopOne]"
  let ?ys = "[Offer [User 1 False False, Chat 2, User 5 False False], PopOne]"
  let ?q1 = "\<lparr>photo_fmt = False, pending = [Channel 3 False True], pending_ids = {- 1000000000003},
        dumped_ids = {1, - 2}, entity_rows = [ChatRow (Chat 2), UserRow (User 1 False False)]\<rparr>"
  let ?q2 = "\<lparr>photo_fmt = False, pending = [User 5 False False], pending_ids = {5},
        dumped_ids = {1, - 2, - 1000000000003},
        entity_rows = [ChatRow (Chat 2), UserRow (User 1 False False), ChatRow (Chat 2),
                       SupergroupRow (Channel 3 False True)]\<rparr>"
  have a: "chats_apart quiet_remote (offered (?xs @ ?ys))"
    by (simp add: chats_apart_def quiet_remote_def)
  have r1: "queue_run quiet_remote ?xs (entity_downloader_init False []) = Returned () ?q1"
    by (simp add: queue_evals)
  have r2: "queue_run quiet_remote ?ys ?q1 = Returned () ?q2"
    by (auto simp: queue_evals)
  from queue_invariant [OF r1 r2] a have "total_count ?q2 = queue_len ?q2 + dumped_count ?q2"
    by blast
  then have "total_count ?q2 = 1 + 3"
    by (simp add: queue_len_def dumped_count_def)
  with a r1 show ?thesis by blast
qed

text \<open>
  The separation of peer ids is needed for the counts: were a basic group to share its peer
  id with a pending user, dumping the group would take the id out of the pending ids while
  the user stays in the deque.
\<close>

lemma colliding_peer_ids:
  "queue_run (quiet_remote\<lparr>get_peer_id := (\<lambda>_. 0)\<rparr>) [Offer [User 1 False False, Chat 2]]
     (entity_downloader_init False []) =
   Returned () \<lparr>photo_fmt = False, pending = [User 1 False False], pending_ids = {},
                 dumped_ids = {0}, entity_rows = [ChatRow (Chat 2)]\<rparr>"
  by (auto simp: queue_evals)

section \<open>What \<open>Offer\<close> drops and what it dumps at once\<close>

lemma extend_pending_dropped:
  "dropped_kind e \<Longrightarrow> extend_pending r (e # es) q = extend_pending r es q"
  by (cases e) simp_all

text \<open>
  Claim C6. \<open>Offer\<close> leaves the whole queue as it was (nothing enqueued, nothing dumped,
  \<open>total_count\<close> unchanged) when every offered entity is of an empty or forbidden kind, a
  user marked deleted or min, or a channel with \<open>left\<close> set; and such entities at the front
  of a longer offer change nothing about how the rest is handled.
\<close>

theorem offer_drops:
  assumes "\<forall>e \<in> set ds. dropped_kind e"
  shows "extend_pending r ds q = Returned () q \<and>
         extend_pending r (ds @ es) q = extend_pending r es q"
  using assms
proof (induction ds)
  case Nil
  show ?case by simp
next
  case (Cons a ds)
  then show ?case
    by (simp add: extend_pending_dropped del: extend_pending.simps(2))
qed

theorem offer_drops_witness:
  "(dropped_kind (UserEmpty 1) \<and> dropped_kind (ChatEmpty 2) \<and> dropped_kind (ChatForbidden 3) \<and>
    dropped_kind (ChannelForbidden 4) \<and> dropped_kind (User 5 True False) \<and>
    dropped_kind (User 6 False True) \<and> dropped_kind (Channel 7 True False)) \<and>
   extend_pending quiet_remote
     [UserEmpty 1, ChatEmpty 2, ChatForbidden 3, ChannelForbidden 4, User 5 True False,
      User 6 False True, Channel 7 True False]
     (entity_downloader_init False []) = Returned () (entity_downloader_init False []) \<and>
   total_count (entity_downloader_init False []) = 0"
proof -
  let ?ds = "[UserEmpty 1, ChatEmpty 2, ChatForbidden 3, ChannelForbidden 4, User 5 True False,
      User 6 False True, Channel 7 True False]"
  have h: "\<forall>e \<in> set ?ds. dropped_kind e" by simp
  from offer_drops [OF h, of quiet_remote "entity_downloader_init False []" "[]"]
  have "extend_pending quiet_remote ?ds (entity_downloader_init False []) =
        Returned () (entity_downloader_init False [])" by blast
  then show ?thesis by (simp add: total_count_def entity_downloader_init_def)
qed

lemma dump_entity_rows:
  "dump_entity r e q = Returned n q' \<Longrightarrow> set (entity_rows q) \<subseteq> set (entity_rows q')"
  by (cases e)
     (auto simp: dump_entity_def mark_dumped_def add_row_def Let_def split: option.splits)

lemma dump_chat_Returned:
  "dump_entity r (Chat i) q = Returned n q' \<Longrightarrow>
     n = 0 \<and> entity_rows q' = entity_rows q @ [ChatRow (Chat i)]"
  by (auto simp: dump_entity_def mark_dumped_def add_row_def Let_def split: option.splits)

lemma dump_chat_no_full_request:
  "dump_entity (r\<lparr>get_full := g\<rparr>) (Chat i) q = dump_entity r (Chat i) q"
  by (simp add: dump_entity_def download_profile_photo_def Let_def)

lemma enqueue_facts:
  "pending_ids (enqueue r e q) \<supseteq> pending_ids q \<and> dumped_ids (enqueue r e q) = dumped_ids q \<and>
   entity_rows (enqueue r e q) = entity_rows q \<and>
   set (pending (enqueue r e q)) \<subseteq> insert e (set (pending q))"
  by (auto simp: enqueue_def Let_def)

lemma extend_pending_chat:
  "extend_pending r es q = Returned u q' \<Longrightarrow> \<forall>e \<in> set (pending q). is_user_or_channel e \<Longrightarrow>
     (\<forall>e \<in> set (pending q'). is_user_or_channel e) \<and>
     dumped_ids q \<subseteq> dumped_ids q' \<and> set (entity_rows q) \<subseteq> set (entity_rows q') \<and>
     (\<forall>i. Chat i \<in> set es \<longrightarrow>
        get_peer_id r (Chat i) \<in> dumped_ids q' \<and> ChatRow (Chat i) \<in> set (entity_rows q'))"
proof (induction es arbitrary: q)
  case Nil
  then show ?case by simp
next
  case (Cons e es)
  have skip: ?case if eq: "extend_pending r (e # es) q = extend_pending r es q" and "\<not> is_chat e"
  proof -
    from that(2) have ne: "\<And>i. Chat i \<noteq> e" by auto
    from Cons.prems(1) have "extend_pending r es q = Returned u q'" unfolding eq .
    from Cons.IH [OF this Cons.prems(2)] ne show ?thesis by simp
  qed
  have queue: ?case
    if eq: "extend_pending r (e # es) q = extend_pending r es (enqueue r e q)"
      and "is_user_or_channel e"
  proof -
    from that(2) have ne: "\<And>i. Chat i \<noteq> e" by auto
    have k: "\<forall>x \<in> set (pending (enqueue r e q)). is_user_or_channel x"
      using enqueue_facts [of q r e] Cons.prems(2) that(2) by auto
    from Cons.prems(1) have "extend_pending r es (enqueue r e q) = Returned u q'" unfolding eq .
    from Cons.IH [OF this k] ne enqueue_facts [of q r e] show ?thesis by simp
  qed
  show ?case
  proof (cases e)
    case (User i d m)
    show ?thesis
    proof (cases "d \<or> m")
      case True
      with User have "extend_pending r (e # es) q = extend_pending r es q" by simp
      moreover from User have "\<not> is_chat e" by simp
      ultimately show ?thesis by (rule skip)
    next
      case False
      with User have "extend_pending r (e # es) q = extend_pending r es (enqueue r e q)" by simp
      moreover from User have "is_user_or_channel e" by simp
      ultimately show ?thesis by (rule queue)
    qed
  next
    case (Chat i)
    with Cons.prems obtain n q1 where d: "dump_entity r (Chat i) q = Returned n q1"
      and rest: "extend_pending r es q1 = Returned u q'"
      by (auto split: outcome.splits)
    from dump_entity_Returned [OF d] dump_chat_Returned [OF d] Cons.prems(2)
    have k1: "\<forall>e \<in> set (pending q1). is_user_or_channel e"
      and d1: "dumped_ids q \<subseteq> dumped_ids q1" "get_peer_id r (Chat i) \<in> dumped_ids q1"
      and r1: "set (entity_rows q) \<subseteq> set (entity_rows q1)" "ChatRow (Chat i) \<in> set (entity_rows q1)"
      by auto
    from Cons.IH [OF rest k1] d1 r1 Chat show ?thesis by auto
  next
    case (Channel i l g)
    show ?thesis
    proof (cases l)
      case True
      with Channel have "extend_pending r (e # es) q = extend_pending r es q" by simp
      moreover from Channel have "\<not> is_chat e" by simp
      ultimately show ?thesis by (rule skip)
    next
      case False
      with Channel have "extend_pending r (e # es) q = extend_pending r es (enqueue r e q)" by simp
      moreover from Channel have "is_user_or_channel e" by simp
      ultimately show ?thesis by (rule queue)
    qed
  qed (simp_all add: skip)
qed

lemma pop_pending_kinds:
  "pop_pending r q = Returned n q' \<Longrightarrow> \<forall>e \<in> set (pending q). is_user_or_channel e \<Longrightarrow>
     \<forall>e \<in> set (pending q'). is_user_or_channel e"
  by (cases "pending q") (auto simp: pop_pending_def dest!: dump_entity_Returned)

lemma queue_run_kinds:
  "queue_run r xs q = Returned u q' \<Longrightarrow> \<forall>e \<in> set (pending q). is_user_or_channel e \<Longrightarrow>
     \<forall>e \<in> set (pending q'). is_user_or_channel e"
proof (induction xs arbitrary: q)
  case Nil
  then show ?case by simp
next
  case (Cons x xs)
  from Cons.prems(1) obtain q1 where st: "queue_step r x q = Returned () q1"
    and rest: "queue_run r xs q1 = Returned u q'"
    by (auto split: outcome.splits)
  have "\<forall>e \<in> set (pending q1). is_user_or_channel e"
  proof (cases x)
    case (Offer es)
    with st extend_pending_chat [of r es q "()" q1] Cons.prems(2) show ?thesis by simp
  next
    case PopOne
    with st obtain n where "pop_pending r q = Returned n q1"
      by (auto split: outcome.splits)
    from pop_pending_kinds [OF this Cons.prems(2)] show ?thesis .
  qed
  from Cons.IH [OF rest this] show ?case .
qed

text \<open>
  Claim C7. In a state reached from the empty queue, an \<open>Offer\<close> that returns and contains a
  basic group leaves that group's peer id dumped and its row written, and the group is not in
  the deque; the dump of a group never asks the remote for full info (its outcome does not
  depend on \<open>get_full\<close>), needs no sleep, writes the row from the offered payload and leaves
  the deque alone. Every entity in the deque, and so the one \<open>PopOne\<close> removes next, is a user
  or a channel.
\<close>

theorem chat_bypasses_queue:
  assumes "queue_run r xs (entity_downloader_init fmt rows) = Returned () q"
    and "extend_pending r es q = Returned () q'"
    and "Chat i \<in> set es"
  shows "get_peer_id r (Chat i) \<in> dumped_ids q' \<and>
         ChatRow (Chat i) \<in> set (entity_rows q') \<and>
         Chat i \<notin> set (pending q') \<and>
         (\<forall>e \<in> set (pending q'). is_user_or_channel e) \<and>
         (\<forall>e rest. pending q' = e # rest \<longrightarrow> is_user_or_channel e) \<and>
         (\<forall>g. dump_entity (r\<lparr>get_full := g\<rparr>) (Chat i) q = dump_entity r (Chat i) q) \<and>
         (\<forall>n q1. dump_entity r (Chat i) q = Returned n q1 \<longrightarrow>
            n = 0 \<and> pending q1 = pending q \<and> entity_rows q1 = entity_rows q @ [ChatRow (Chat i)])"
proof -
  have "\<forall>e \<in> set (pending (entity_downloader_init fmt rows)). is_user_or_channel e"
    by (simp add: entity_downloader_init_def)
  from queue_run_kinds [OF assms(1) this]
  have k: "\<forall>e \<in> set (pending q). is_user_or_channel e" .
  from extend_pending_chat [OF assms(2) k] assms(3)
  have k': "\<forall>e \<in> set (pending q'). is_user_or_channel e"
    and d: "get_peer_id r (Chat i) \<in> dumped_ids q'" "ChatRow (Chat i) \<in> set (entity_rows q')"
    by auto
  from k' have "Chat i \<notin> set (pending q')" by auto
  moreover from k' have "\<forall>e rest. pending q' = e # rest \<longrightarrow> is_user_or_channel e" by auto
  moreover have "\<forall>n q1. dump_entity r (Chat i) q = Returned n q1 \<longrightarrow>
            n = 0 \<and> pending q1 = pending q \<and> entity_rows q1 = entity_rows q @ [ChatRow (Chat i)]"
    using dump_entity_Returned dump_chat_Returned by blast
  ultimately show ?thesis using k' d dump_chat_no_full_request by blast
qed

theorem chat_bypasses_queue_witness:
  "queue_run quiet_remote [Offer [User 1 False False]] (entity_downloader_init False []) =
     Returned () \<lparr>photo_fmt = False, pending = [User 1 False False], pending_ids = {1},
                    dumped_ids = {}, entity_rows = []\<rparr> \<and>
   extend_pending quiet_remote [Chat 2, Channel 3 False False]
     \<lparr>photo_fmt = False, pending = [User 1 False False], pending_ids = {1},
        dumped_ids = {}, entity_rows = []\<rparr> =
     Returned () \<lparr>photo_fmt = False, pending = [User 1 False False, Channel 3 False False],
                    pending_ids = {- 1000000000003, 1}, dumped_ids = {- 2},
                    entity_rows = [ChatRow (Chat 2)]\<rparr> \<and>
   Chat 2 \<in> set [Chat 2, Channel 3 False False] \<and>
   get_peer_id quiet_remote (Chat 2) \<in> {- 2} \<and>
   Chat 2 \<notin> set [User 1 False False, Channel 3 False False]"
proof -
  let ?q = "\<lparr>photo_fmt = False, pending = [User 1 False False], pending_ids = {1},
        dumped_ids = {}, entity_rows = []\<rparr>"
  let ?q' = "\<lparr>photo_fmt = False, pending = [User 1 False False, Channel 3 False False],
                    pending_ids = {- 1000000000003, 1}, dumped_ids = {- 2},
                    entity_rows = [ChatRow (Chat 2)]\<rparr>"
  have r1: "queue_run quiet_remote [Offer [User 1 False False]] (entity_downloader_init False []) =
     Returned () ?q"
    by (auto simp: queue_evals)
  have r2: "extend_pending quiet_remote [Chat 2, Channel 3 False False] ?q = Returned () ?q'"
    by (auto simp: queue_evals)
  have m: "Chat 2 \<in> set [Chat 2, Channel 3 False False]" by simp
  from chat_bypasses_queue [OF r1 r2 m]
  have "get_peer_id quiet_remote (Chat 2) \<in> dumped_ids ?q'" "Chat 2 \<notin> set (pending ?q')"
    by blast+
  with r1 r2 m show ?thesis by simp
qed

section \<open>Media classification and the media filter\<close>

text \<open>
  A document media never gets past the \<open>isinstance\<close> guard of \<open>_get_media_type\<close>: the loop
  over its attributes would say \<open>sticker\<close>, the function returns \<open>False\<close>, and a non-empty
  whitelist then refuses the media.
\<close>

lemma document_media_type_is_False:
  "get_media_type (Some (MessageMediaDocument (Document 1 10 [DocumentAttributeSticker]))) = PyFalse \<and>
   attribute_type (document_attributes (Document 1 10 [DocumentAttributeSticker])) = ''sticker'' \<and>
   \<not> check_media \<lparr>max_size = Some 10, types = {''sticker'', ''unknown''}\<rparr>
       (Some (MessageMediaDocument (Document 1 10 [DocumentAttributeSticker])))"
  by (simp add: get_media_type_def check_media_def)

text \<open>
  Claim C8 as stated fails where \<open>MaxSize\<close> is zero: the whitelist is empty and the media is a
  photo, yet \<open>check_media\<close> refuses it.
\<close>

theorem check_media_whitelist_counterexample:
  "\<not> (check_media \<lparr>max_size = Some 0, types = {}\<rparr> (Some (MessageMediaPhoto (Photo 7))) \<longleftrightarrow>
       (types \<lparr>max_size = Some 0, types = {}\<rparr> = {} \<or>
        in_types (get_media_type (Some (MessageMediaPhoto (Photo 7))))
          (types \<lparr>max_size = Some 0, types = {}\<rparr>)))"
  by (simp add: check_media_def)

text \<open>
  Claim C8, amended. A photo media is classified \<open>photo\<close> and a media that is neither photo
  nor document is classified \<open>unknown\<close>, so every present media that is not of document kind
  lands in the taxonomy; for such a media, when \<open>MaxSize\<close> is set and nonzero, \<open>check_media\<close>
  accepts it exactly when the whitelist is empty or holds its classified type; and when
  \<open>MaxSize\<close> is zero or unset \<open>check_media\<close> accepts no media at all.
\<close>

theorem media_classification_and_filter:
  "get_media_type (Some (MessageMediaPhoto p)) = TypeName ''photo'' \<and>
   get_media_type (Some (MessageMediaOther i)) = TypeName ''unknown'' \<and>
   (\<not> is_document_media m \<longrightarrow> (\<exists>s \<in> taxonomy. get_media_type (Some m) = TypeName s)) \<and>
   (\<not> is_document_media m \<and> \<not> not_max_size (max_size d) \<longrightarrow>
      check_media d (Some m) = (types d = {} \<or> in_types (get_media_type (Some m)) (types d))) \<and>
   (not_max_size (max_size d) \<longrightarrow> \<not> check_media d (Some m))"
  by (cases m) (auto simp: get_media_type_def check_media_def taxonomy_def)

theorem media_classification_and_filter_witness:
  "\<not> is_document_media (MessageMediaPhoto (Photo 7)) \<and>
   \<not> not_max_size (max_size \<lparr>max_size = Some 10, types = {''photo'', ''unknown''}\<rparr>) \<and>
   get_media_type (Some (MessageMediaPhoto (Photo 7))) = TypeName ''photo'' \<and>
   ''photo'' \<in> taxonomy \<and>
   check_media \<lparr>max_size = Some 10, types = {''photo'', ''unknown''}\<rparr>
     (Some (MessageMediaPhoto (Photo 7)))"
  using media_classification_and_filter
    [of "Photo 7" 0 "MessageMediaPhoto (Photo 7)" "\<lparr>max_size = Some 10, types = {''photo'', ''unknown''}\<rparr>"]
  by (simp add: taxonomy_def)

text \<open>
  The answers of \<open>check_media\<close>: false when the media is absent or \<open>MaxSize\<close> is zero,
  whatever the whitelist; true for every present media with a nonzero \<open>MaxSize\<close> and an
  empty whitelist; the same for any two nonzero values of \<open>MaxSize\<close> and for any two sizes of
  a document. The constructor stores \<open>MaxSize\<close> as given and builds an empty type set
  exactly from a whitelist with only blank entries.
\<close>

lemma check_media_answers:
  "(media = None \<or> max_size d = Some 0 \<longrightarrow> \<not> check_media d media) \<and>
   (max_size d = Some n \<and> n \<noteq> 0 \<and> types d = {} \<longrightarrow> check_media d (Some m)) \<and>
   (n \<noteq> 0 \<and> n' \<noteq> 0 \<longrightarrow>
      check_media (d\<lparr>max_size := Some n\<rparr>) media = check_media (d\<lparr>max_size := Some n'\<rparr>) media) \<and>
   check_media d (Some (MessageMediaDocument (Document i sz attrs))) =
     check_media d (Some (MessageMediaDocument (Document i sz' attrs))) \<and>
   (Downloader_init ms wl = Inr d' \<longrightarrow>
      max_size d' = ms \<and> (types d' = {} \<longleftrightarrow> (\<forall>x \<in> set wl. x = [])))"
proof -
  have "Downloader_init ms wl = Inr d' \<longrightarrow>
      max_size d' = ms \<and> (types d' = {} \<longleftrightarrow> (\<forall>x \<in> set wl. x = []))"
    by (auto simp: Downloader_init_def Let_def filter_empty_conv split: if_splits)
  then show ?thesis
    by (simp add: check_media_def get_media_type_def)
qed

section \<open>Encoding and decoding message entities\<close>

declare str_nat.simps [simp del]

lemma digit_value_digit_char: "d < 10 \<Longrightarrow> digit_value (digit_char d) = Some d"
proof -
  assume "d < 10"
  then have "d \<in> {0, 1, 2, 3, 4, 5, 6, 7, 8, 9}" by auto
  then show ?thesis by (auto simp: digit_char_def digit_value_def digit_table_def)
qed

lemma digit_char_plain:
  "d < 10 \<Longrightarrow> digit_char d \<notin> {CHR '','', CHR '';'', CHR ''-'', CHR ''+''}"
proof -
  assume "d < 10"
  then have "d \<in> {0, 1, 2, 3, 4, 5, 6, 7, 8, 9}" by auto
  then show ?thesis by (auto simp: digit_char_def)
qed

lemma parse_digits_append:
  "parse_digits acc (s @ t) = (case parse_digits acc s of None \<Rightarrow> None | Some a \<Rightarrow> parse_digits a t)"
  by (induction s arbitrary: acc) (simp_all split: option.splits)

lemma parse_digits_str_nat: "parse_digits 0 (str_nat n) = Some n"
proof (induction n rule: str_nat.induct)
  case (1 n)
  show ?case
  proof (cases "n < 10")
    case True
    then show ?thesis
      by (subst str_nat.simps) (simp add: digit_value_digit_char)
  next
    case False
    with 1 have "parse_digits 0 (str_nat (n div 10)) = Some (n div 10)" by simp
    with False show ?thesis
      by (subst str_nat.simps)
         (simp add: parse_digits_append digit_value_digit_char)
  qed
qed

lemma str_nat_chars:
  "str_nat n \<noteq> [] \<and> (\<forall>c \<in> set (str_nat n). c \<notin> {CHR '','', CHR '';'', CHR ''-'', CHR ''+''})"
proof (induction n rule: str_nat.induct)
  case (1 n)
  show ?case
  proof (cases "n < 10")
    case True
    then show ?thesis
      using digit_char_plain [of n] by (subst (1 2) str_nat.simps) simp
  next
    case False
    with 1 digit_char_plain [of "n mod 10"] show ?thesis
      by (subst (1 2) str_nat.simps) simp
  qed
qed

lemma parse_nat_str_nat: "parse_nat (str_nat n) = Some n"
  using str_nat_chars [of n] by (simp add: parse_nat_def parse_digits_str_nat)

lemma py_int_str_int: "py_int (str_int i) = Inr i"
proof (cases "i < 0")
  case True
  then show ?thesis by (simp add: py_int_def str_int_def parse_nat_str_nat)
next
  case False
  obtain c cs where s: "str_nat (nat i) = c # cs"
    using str_nat_chars [of "nat i"] by (cases "str_nat (nat i)") auto
  with str_nat_chars [of "nat i"] have "c \<noteq> CHR ''-''" "c \<noteq> CHR ''+''" by auto
  moreover have "parse_nat (c # cs) = Some (nat i)" using parse_nat_str_nat [of "nat i"] s by simp
  ultimately show ?thesis using False s by (simp add: py_int_def str_int_def)
qed

lemma str_int_chars: "CHR '','' \<notin> set (str_int i) \<and> CHR '';'' \<notin> set (str_int i)"
  using str_nat_chars [of "nat i"] str_nat_chars [of "nat (- i)"] by (auto simp: str_int_def)

lemma py_split_nonempty: "py_split c s \<noteq> []"
  by (induction s) (auto split: list.splits)

lemma py_split_plain: "c \<notin> set p \<Longrightarrow> py_split c p = [p]"
  by (induction p) auto

lemma py_split_append: "c \<notin> set p \<Longrightarrow> py_split c (p @ c # rest) = p # py_split c rest"
  by (induction p) (auto split: list.splits simp: py_split_nonempty)

lemma py_split_join:
  "parts \<noteq> [] \<Longrightarrow> \<forall>p \<in> set parts. c \<notin> set p \<Longrightarrow> py_split c (py_join c parts) = parts"
proof (induction parts rule: py_join.induct)
  case (1 c)
  then show ?case by simp
next
  case (2 c p)
  then show ?case by (simp add: py_split_plain)
next
  case (3 c p q ps)
  then show ?case by (simp add: py_split_append)
qed

lemma py_replace_plain: "c \<notin> set s \<Longrightarrow> py_replace c rep s = s"
  by (induction s) (auto simp: py_replace_def)

lemma encode_parsed_supported:
  "\<forall>e \<in> set es. supported_kind e \<Longrightarrow> encode_parsed es = map piece es"
proof (induction es)
  case Nil
  show ?case by simp
next
  case (Cons e es)
  then show ?case by (cases e) (simp_all add: piece_def)
qed

lemma piece_no_semicolon:
  "supported_kind e \<Longrightarrow> url_plain e \<Longrightarrow> CHR '';'' \<notin> set (piece e) \<and> piece e \<noteq> []"
  using str_int_chars [of "entity_offset e"] str_int_chars [of "entity_length e"]
  by (cases e) (auto simp: piece_def py_replace_plain str_int_chars)

lemma decode_part_piece:
  assumes "supported_kind e" "url_plain e" "\<not> is_pre e"
  shows "decode_part (piece e) = Inr (Some e)"
proof -
  have c: "\<And>i. CHR '','' \<notin> set (str_int i)" using str_int_chars by simp
  show ?thesis
    using assms
    by (cases e)
       (simp_all add: piece_def decode_part_def Let_def py_split_append py_split_plain c
          py_int_str_int py_replace_plain)
qed

lemma decode_part_pre: "decode_part (piece (MessageEntityPre off len lang)) = Inl TypeError"
proof -
  have c: "\<And>i. CHR '','' \<notin> set (str_int i)" using str_int_chars by simp
  show ?thesis
    by (simp add: piece_def decode_part_def Let_def py_split_append py_split_plain c
        py_int_str_int)
qed

lemma decode_parts_pieces:
  "\<forall>e \<in> set es. supported_kind e \<and> url_plain e \<and> \<not> is_pre e \<Longrightarrow>
     decode_parts (map piece es) = Inr es"
  by (induction es) (simp_all add: decode_part_piece)

lemma py_join_nonempty: "parts \<noteq> [] \<Longrightarrow> hd parts \<noteq> [] \<Longrightarrow> py_join c parts \<noteq> []"
  by (induction parts rule: py_join.induct) simp_all

lemma decode_encoded:
  assumes ne: "es \<noteq> []" and ok: "\<forall>e \<in> set es. supported_kind e \<and> url_plain e"
  shows "decode_msg_entities (encode_msg_entities (Some es)) =
         (case decode_parts (map piece es) of
            Inl err \<Rightarrow> Inl err | Inr parsed \<Rightarrow> Inr (Some parsed))"
proof -
  let ?parts = "map piece es"
  from ne obtain e es' where es: "es = e # es'" by (cases es) auto
  from ok have enc: "encode_parsed es = ?parts" by (simp add: encode_parsed_supported)
  with es have e1: "encode_msg_entities (Some es) = Some (py_join CHR '';'' ?parts)"
    by (simp add: encode_msg_entities_def)
  from ok have plain: "\<forall>p \<in> set ?parts. CHR '';'' \<notin> set p"
    by (auto simp: piece_no_semicolon)
  from ok es have "hd ?parts \<noteq> []" by (simp add: piece_no_semicolon)
  with ne have "py_join CHR '';'' ?parts \<noteq> []" by (simp add: py_join_nonempty)
  then obtain c cs where j: "py_join CHR '';'' ?parts = c # cs"
    by (cases "py_join CHR '';'' ?parts") auto
  from ne plain have sp: "py_split CHR '';'' (py_join CHR '';'' ?parts) = ?parts"
    by (simp add: py_split_join)
  have "decode_msg_entities (Some (py_join CHR '';'' ?parts)) =
        (case decode_parts (py_split CHR '';'' (py_join CHR '';'' ?parts)) of
           Inl err \<Rightarrow> Inl err | Inr parsed \<Rightarrow> Inr (Some parsed))"
    by (simp add: decode_msg_entities_def j)
  with sp e1 show ?thesis by simp
qed

text \<open>
  Apart from \<open>pre\<close> the round trip holds: for a non-empty list of entities of the kinds
  code, bold, italic, text URL and mention by name, with URLs free of commas and semicolons,
  decoding the encoded list returns the list. The empty cases return \<open>None\<close>.
\<close>

lemma round_trip_without_pre:
  "(es \<noteq> [] \<and> (\<forall>e \<in> set es. supported_kind e \<and> url_plain e \<and> \<not> is_pre e) \<longrightarrow>
      decode_msg_entities (encode_msg_entities (Some es)) = Inr (Some es)) \<and>
   encode_msg_entities None = None \<and> encode_msg_entities (Some []) = None \<and>
   decode_msg_entities None = Inr None \<and> decode_msg_entities (Some []) = Inr None"
proof -
  have "decode_msg_entities (encode_msg_entities (Some es)) = Inr (Some es)"
    if ne: "es \<noteq> []" and ok: "\<forall>e \<in> set es. supported_kind e \<and> url_plain e \<and> \<not> is_pre e"
  proof -
    from ok have "\<forall>e \<in> set es. supported_kind e \<and> url_plain e" by blast
    from decode_encoded [OF ne this] decode_parts_pieces [OF ok] show ?thesis by simp
  qed
  then show ?thesis
    by (simp add: encode_msg_entities_def decode_msg_entities_def)
qed

lemma round_trip_example:
  "encode_msg_entities
     (Some [MessageEntityBold 0 5, MessageEntityTextUrl 6 4 ''http://a.b/c'',
            MessageEntityMentionName 11 3 42, MessageEntityCode (- 1) 120]) =
     Some ''bold,0,5;texturl,6,4,http://a.b/c;mentionname,11,3,42;code,-1,120'' \<and>
   decode_msg_entities (Some ''bold,0,5;texturl,6,4,http://a.b/c;mentionname,11,3,42;code,-1,120'') =
     Inr (Some [MessageEntityBold 0 5, MessageEntityTextUrl 6 4 ''http://a.b/c'',
                MessageEntityMentionName 11 3 42, MessageEntityCode (- 1) 120])"
  by code_simp

text \<open>
  Claim C9 does not hold of the code. A \<open>pre\<close> entity is of a supported kind and has no URL,
  yet decoding what \<open>encode_msg_entities\<close> writes for it raises \<open>TypeError\<close>, whatever its
  offset, length and language: the class is called without the language.
\<close>

theorem pre_entity_decode_raises:
  "supported_kind (MessageEntityPre off len lang) \<and> url_plain (MessageEntityPre off len lang) \<and>
   encode_msg_entities (Some [MessageEntityPre off len lang]) =
     Some (''pre,'' @ str_int off @ '','' @ str_int len) \<and>
   decode_msg_entities (encode_msg_entities (Some [MessageEntityPre off len lang])) = Inl TypeError"
proof -
  let ?e = "MessageEntityPre off len lang"
  have ok: "\<forall>e \<in> set [?e]. supported_kind e \<and> url_plain e" by simp
  from decode_encoded [OF _ ok] decode_part_pre [of off len lang]
  have "decode_msg_entities (encode_msg_entities (Some [?e])) = Inl TypeError" by simp
  moreover have "encode_msg_entities (Some [?e]) = Some (''pre,'' @ str_int off @ '','' @ str_int len)"
    by (simp add: encode_msg_entities_def)
  ultimately show ?thesis by simp
qed

lemma pre_entity_example:
  "encode_msg_entities (Some [MessageEntityPre 0 5 ''python'']) = Some ''pre,0,5'' \<and>
   decode_msg_entities (Some ''pre,0,5'') = Inl TypeError \<and>
   decode_msg_entities (Some ''bold,0,5;pre,6,2'') = Inl TypeError"
  by code_simp

text \<open>The hypothesis on URLs is needed too: an escaped comma is not turned back.\<close>

lemma url_with_comma_changes:
  "decode_msg_entities (encode_msg_entities (Some [MessageEntityTextUrl 6 4 ''a,b''])) =
     Inr (Some [MessageEntityTextUrl 6 4 ''a%2cb''])"
  by code_simp

section \<open>What a page changes in the state\<close>

lemma MAX_eq:
  "get_message_id_MAX d =
     (if message_rows d = [] then 0 else Max (fst ` set (message_rows d)))"
proof (cases "message_rows d")
  case Nil
  then show ?thesis by (simp add: get_message_id_MAX_def)
next
  case (Cons kv rest)
  then have "get_message_id_MAX d = fold max (map fst rest) (fst kv)"
    by (simp add: get_message_id_MAX_def)
  also have "\<dots> = Max (set (fst kv # map fst rest))" by (simp only: Max.set_eq_fold)
  finally show ?thesis using Cons by simp
qed

lemma MAX_update:
  assumes "message_rows d' = AList.update k v (message_rows d)"
  shows "0 \<le> k \<longrightarrow> get_message_id_MAX d \<le> get_message_id_MAX d' \<and> k \<le> get_message_id_MAX d'"
proof
  assume k: "0 \<le> k"
  have ne: "message_rows d' \<noteq> []" using assms(1) by (cases "message_rows d") auto
  have keys: "fst ` set (message_rows d') = insert k (fst ` set (message_rows d))"
    using assms(1) by (simp add: dom_update)
  show "get_message_id_MAX d \<le> get_message_id_MAX d' \<and> k \<le> get_message_id_MAX d'"
  proof (cases "message_rows d = []")
    case True
    with keys ne k show ?thesis by (simp add: MAX_eq)
  next
    case False
    then have "fst ` set (message_rows d) \<noteq> {}" by simp
    with keys ne False show ?thesis by (simp add: MAX_eq)
  qed
qed

lemma dump_media_frame:
  "dump_media media d = (mid, d') \<Longrightarrow>
     same_frame d d' \<and> message_rows d' = message_rows d \<and> upsert_log d' = upsert_log d \<and>
     forward_rows d' = forward_rows d"
  by (auto simp: dump_media_def same_frame_def split: option.splits)

lemma dump_forward_frame:
  "dump_forward fwd d = (fid, d') \<Longrightarrow>
     same_frame d d' \<and> message_rows d' = message_rows d \<and> upsert_log d' = upsert_log d \<and>
     media_rows d' = media_rows d"
  by (auto simp: dump_forward_def same_frame_def split: option.splits)

lemma dump_message_frame:
  "same_frame d (dump_message m fid mid d) \<and>
   message_rows (dump_message m fid mid d) =
     AList.update (row_id m) (StoredMessage m fid mid) (message_rows d) \<and>
   upsert_log (dump_message m fid mid d) = upsert_log d @ [row_id m] \<and>
   media_rows (dump_message m fid mid d) = media_rows d"
  by (simp add: dump_message_def same_frame_def)

lemma same_frame_trans: "same_frame a b \<Longrightarrow> same_frame b c \<Longrightarrow> same_frame a c"
  by (simp add: same_frame_def)

lemma same_frame_refl: "same_frame a a"
  by (simp add: same_frame_def)

text \<open>
  One row: the frame stays, the log of upserts grows by at most the row's id, and the
  maximum id does not drop when the row's id is not negative.
\<close>

lemma dump_row_frame:
  assumes "d' = final (dump_row r dl target q m d)"
  shows "same_frame d d' \<and>
         (0 \<le> row_id m \<longrightarrow> get_message_id_MAX d \<le> get_message_id_MAX d') \<and>
         (upsert_log d' = upsert_log d \<or> upsert_log d' = upsert_log d @ [row_id m])"
proof (cases m)
  case (Message i date media fwd)
  obtain fid d1 where f: "dump_forward fwd d = (fid, d1)" by (cases "dump_forward fwd d")
  obtain mid d2 where g: "dump_media media d1 = (mid, d2)" by (cases "dump_media media d1")
  let ?d3 = "dump_message m fid mid d2"
  from dump_forward_frame [OF f] dump_media_frame [OF g] dump_message_frame [of d2 m fid mid]
  have fr: "same_frame d ?d3"
    and rows: "message_rows ?d3 = AList.update (row_id m) (StoredMessage m fid mid) (message_rows d)"
    and log: "upsert_log ?d3 = upsert_log d @ [row_id m]"
    by (auto intro: same_frame_trans)
  have mx: "0 \<le> row_id m \<longrightarrow> get_message_id_MAX d \<le> get_message_id_MAX ?d3"
    using MAX_update [OF rows] by simp
  show ?thesis
  proof (cases "if check_media dl media then download_media r i media else Inr None")
    case (Inl err)
    with Message assms(1) have "d' = d" by simp
    then show ?thesis by (simp add: same_frame_refl)
  next
    case (Inr res)
    with Message assms(1) f g have "d' = ?d3" by simp
    with fr mx log show ?thesis by simp
  qed
next
  case (MessageService i date action)
  show ?thesis
  proof (cases action)
    case (MessageActionChatEditPhoto p)
    obtain mid d1 where g: "dump_media (Some (MessageMediaPhoto p)) d = (mid, d1)"
      by (cases "dump_media (Some (MessageMediaPhoto p)) d")
    let ?d2 = "dump_message m None mid d1"
    from dump_media_frame [OF g] dump_message_frame [of d1 m None mid]
    have fr1: "same_frame d d1" "message_rows d1 = message_rows d" "upsert_log d1 = upsert_log d"
      and fr: "same_frame d ?d2"
      and rows: "message_rows ?d2 = AList.update (row_id m) (StoredMessage m None mid) (message_rows d)"
      and log: "upsert_log ?d2 = upsert_log d @ [row_id m]"
      by (auto intro: same_frame_trans)
    have mx: "0 \<le> row_id m \<longrightarrow> get_message_id_MAX d \<le> get_message_id_MAX ?d2"
      using MAX_update [OF rows] by simp
    have mx1: "get_message_id_MAX d1 = get_message_id_MAX d"
      using fr1(2) by (simp add: get_message_id_MAX_def)
    show ?thesis
    proof (cases "download_profile_photo r q target (Some i)")
      case None
      with MessageService MessageActionChatEditPhoto assms(1) g have "d' = ?d2"
        by (simp add: dump_message_service_def)
      with fr mx log show ?thesis by simp
    next
      case (Some err)
      with MessageService MessageActionChatEditPhoto assms(1) g have "d' = d1" by simp
      with fr1 mx1 show ?thesis by simp
    qed
  next
    case MessageActionOther
    let ?d2 = "dump_message m None None d"
    from MessageService MessageActionOther assms(1) have d': "d' = ?d2"
      by (simp add: dump_message_service_def)
    from dump_message_frame [of d m None None]
    have fr: "same_frame d ?d2"
      and rows: "message_rows ?d2 = AList.update (row_id m) (StoredMessage m None None) (message_rows d)"
      and log: "upsert_log ?d2 = upsert_log d @ [row_id m]"
      by auto
    from MAX_update [OF rows] d' fr log show ?thesis by simp
  qed
next
  case (MessageEmpty i)
  with assms(1) show ?thesis by (simp add: same_frame_refl)
qed

lemma dump_rows_frame:
  "d' = final (dump_rows r dl target q ms d) \<Longrightarrow>
     same_frame d d' \<and>
     ((\<forall>m \<in> set ms. 0 \<le> row_id m) \<longrightarrow> get_message_id_MAX d \<le> get_message_id_MAX d') \<and>
     (\<exists>ids. upsert_log d' = upsert_log d @ ids \<and> set ids \<subseteq> row_id ` set ms)"
proof (induction ms arbitrary: d)
  case Nil
  then show ?case by (simp add: same_frame_refl)
next
  case (Cons m ms)
  let ?d1 = "final (dump_row r dl target q m d)"
  from dump_row_frame [OF refl, where r = r and dl = dl and target = target and q = q and d = d and m = m]
  have fr1: "same_frame d ?d1"
    and mx1: "0 \<le> row_id m \<longrightarrow> get_message_id_MAX d \<le> get_message_id_MAX ?d1"
    and log1: "upsert_log ?d1 = upsert_log d \<or> upsert_log ?d1 = upsert_log d @ [row_id m]"
    by auto
  from log1 obtain ids1 where l1: "upsert_log ?d1 = upsert_log d @ ids1" "set ids1 \<subseteq> {row_id m}"
    by (metis append_Nil2 empty_set empty_subsetI list.simps(15) subset_refl)
  show ?case
  proof (cases "dump_row r dl target q m d")
    case (Raised err d1)
    with Cons.prems(1) have "d' = ?d1" by simp
    with fr1 mx1 l1 show ?thesis by auto
  next
    case (Returned u d1)
    with Cons.prems(1) have "d' = final (dump_rows r dl target q ms d1)" by simp
    from Cons.IH [OF this]
    have fr2: "same_frame d1 d'"
      and mx2: "(\<forall>m \<in> set ms. 0 \<le> row_id m) \<longrightarrow> get_message_id_MAX d1 \<le> get_message_id_MAX d'"
      and "\<exists>ids. upsert_log d' = upsert_log d1 @ ids \<and> set ids \<subseteq> row_id ` set ms"
      by auto
    then obtain ids2 where l2: "upsert_log d' = upsert_log d1 @ ids2" "set ids2 \<subseteq> row_id ` set ms"
      by blast
    from Returned have d1: "?d1 = d1" by simp
    from l1 l2 d1 have l: "upsert_log d' = upsert_log d @ (ids1 @ ids2)"
      "set (ids1 @ ids2) \<subseteq> row_id ` set (m # ms)" by auto
    from mx1 mx2 d1
    have mx: "(\<forall>x \<in> set (m # ms). 0 \<le> row_id x) \<longrightarrow> get_message_id_MAX d \<le> get_message_id_MAX d'"
      by auto
    from fr1 fr2 d1 have "same_frame d d'" by (auto intro: same_frame_trans)
    with mx l show ?thesis by blast
  qed
qed

lemma advance_offset_frame:
  "st1 = final (advance_offset h st) \<Longrightarrow>
     stop_at st1 = stop_at st \<and> chunks_left st1 = chunks_left st \<and> requests st1 = requests st \<and>
     db st1 = db st \<and> queue st1 = queue st"
  by (auto simp: advance_offset_def Let_def split: sum.splits)

lemma advance_offset_Returned:
  "advance_offset h st = Returned u st1 \<Longrightarrow>
     offset_id st1 =
       (if h_messages h = [] then offset_id st else min_list (map row_id (h_messages h)))"
  by (auto simp: advance_offset_def Let_def split: sum.splits if_splits)

lemma process_page_frame:
  assumes "st1 = final (process_page r dl target h st)"
  shows "stop_at st1 = stop_at st \<and> chunks_left st1 = chunks_left st \<and>
         requests st1 = requests st \<and> same_frame (db st) (db st1) \<and>
         ((\<forall>m \<in> set (h_messages h). 0 \<le> row_id m) \<longrightarrow>
            get_message_id_MAX (db st) \<le> get_message_id_MAX (db st1)) \<and>
         (\<exists>ids. upsert_log (db st1) = upsert_log (db st) @ ids \<and>
                set ids \<subseteq> row_id ` set (h_messages h))"
proof (cases "extend_pending r (h_users h @ h_chats h) (queue st)")
  case (Raised err q1)
  with assms(1) show ?thesis by (simp add: process_page_def same_frame_refl)
next
  case ext: (Returned u q1)
  show ?thesis
  proof (cases "pop_pending r q1")
    case (Raised err q2)
    with ext assms(1) show ?thesis by (simp add: process_page_def same_frame_refl)
  next
    case pop: (Returned n q2)
    let ?o = "dump_rows r dl target q2 (h_messages h) (db st)"
    from dump_rows_frame [OF refl, where r = r and dl = dl and target = target and q = q2
        and d = "db st" and ms = "h_messages h"]
    have fr: "same_frame (db st) (final ?o)"
      "(\<forall>m \<in> set (h_messages h). 0 \<le> row_id m) \<longrightarrow>
         get_message_id_MAX (db st) \<le> get_message_id_MAX (final ?o)"
      "\<exists>ids. upsert_log (final ?o) = upsert_log (db st) @ ids \<and>
             set ids \<subseteq> row_id ` set (h_messages h)"
      by auto
    show ?thesis
    proof (cases ?o)
      case (Raised err d1)
      with ext pop assms(1) have "st1 = st\<lparr>queue := q2, db := d1\<rparr>" by (simp add: process_page_def)
      with fr Raised show ?thesis by simp
    next
      case (Returned v d1)
      with ext pop assms(1)
      have "st1 = final (advance_offset h (st\<lparr>queue := q2, db := d1\<rparr>))"
        by (simp add: process_page_def)
      from advance_offset_frame [OF this] fr Returned show ?thesis by simp
    qed
  qed
qed

lemma process_page_offset:
  "process_page r dl target h st = Returned u st1 \<Longrightarrow>
     offset_id st1 =
       (if h_messages h = [] then offset_id st else min_list (map row_id (h_messages h)))"
  by (auto simp: process_page_def split: outcome.splits dest!: advance_offset_Returned)

text \<open>
  A page that is worked through without an exception adds to the log of upserts exactly the
  ids of its content and service messages, in order, and leaves the date of its oldest row
  in the offset.
\<close>

lemma dump_row_upserts:
  assumes "dump_row r dl target q m d = Returned u d'"
  shows "upsert_log d' = upsert_log d @ (if upserted m then [row_id m] else [])"
proof (cases m)
  case (Message i date media fwd)
  obtain fid d1 where f: "dump_forward fwd d = (fid, d1)" by (cases "dump_forward fwd d")
  obtain mid d2 where g: "dump_media media d1 = (mid, d2)" by (cases "dump_media media d1")
  from dump_forward_frame [OF f] dump_media_frame [OF g]
  have l: "upsert_log d2 = upsert_log d" by simp
  from assms Message f g have "d' = dump_message m fid mid d2"
    by (simp split: sum.splits)
  with l Message show ?thesis by (simp add: dump_message_def)
next
  case (MessageService i date action)
  show ?thesis
  proof (cases action)
    case (MessageActionChatEditPhoto p)
    obtain mid d1 where g: "dump_media (Some (MessageMediaPhoto p)) d = (mid, d1)"
      by (cases "dump_media (Some (MessageMediaPhoto p)) d")
    from dump_media_frame [OF g] have l: "upsert_log d1 = upsert_log d" by simp
    from assms MessageService MessageActionChatEditPhoto g
    have "d' = dump_message m None mid d1"
      by (simp add: dump_message_service_def split: option.splits)
    with l MessageService show ?thesis by (simp add: dump_message_def)
  next
    case MessageActionOther
    with assms MessageService show ?thesis
      by (auto simp: dump_message_service_def dump_message_def)
  qed
next
  case (MessageEmpty i)
  with assms show ?thesis by auto
qed

lemma dump_rows_upserts:
  "dump_rows r dl target q ms d = Returned u d' \<Longrightarrow>
     upsert_log d' = upsert_log d @ map row_id (filter upserted ms)"
proof (induction ms arbitrary: d)
  case Nil
  then show ?case by simp
next
  case (Cons m ms)
  show ?case
  proof (cases "dump_row r dl target q m d")
    case (Raised err d1)
    with Cons.prems show ?thesis by simp
  next
    case (Returned v d1)
    with Cons.prems have "dump_rows r dl target q ms d1 = Returned u d'" by simp
    from Cons.IH [OF this] dump_row_upserts [OF Returned] show ?thesis by simp
  qed
qed

lemma advance_offset_date:
  "advance_offset h st = Returned u st1 \<Longrightarrow> h_messages h \<noteq> [] \<Longrightarrow>
     min_date (h_messages h) = Inr (offset_date st1)"
  by (auto simp: advance_offset_def Let_def split: sum.splits if_splits)

lemma process_page_upserts:
  assumes "process_page r dl target h st = Returned u st1"
  shows "upsert_log (db st1) = upsert_log (db st) @ upserted_ids h"
    and "h_messages h \<noteq> [] \<Longrightarrow> min_date (h_messages h) = Inr (offset_date st1)"
proof -
  from assms obtain v q1 where ext: "extend_pending r (h_users h @ h_chats h) (queue st) = Returned v q1"
    by (cases "extend_pending r (h_users h @ h_chats h) (queue st)") (simp_all add: process_page_def)
  from assms ext obtain n q2 where pop: "pop_pending r q1 = Returned n q2"
    by (cases "pop_pending r q1") (simp_all add: process_page_def)
  from assms ext pop obtain w d1 where
    rows: "dump_rows r dl target q2 (h_messages h) (db st) = Returned w d1"
    by (cases "dump_rows r dl target q2 (h_messages h) (db st)") (simp_all add: process_page_def)
  from assms ext pop rows have adv: "advance_offset h (st\<lparr>queue := q2, db := d1\<rparr>) = Returned u st1"
    by (simp add: process_page_def)
  from advance_offset_frame [OF refl, of h "st\<lparr>queue := q2, db := d1\<rparr>"] adv
  have "db st1 = d1" by simp
  with dump_rows_upserts [OF rows] show "upsert_log (db st1) = upsert_log (db st) @ upserted_ids h"
    by (simp add: upserted_ids_def)
  show "min_date (h_messages h) = Inr (offset_date st1)" if "h_messages h \<noteq> []"
    using advance_offset_date [OF adv that] .
qed

lemma checkpoint_cases:
  obtains
    (update) "checkpoint n st = (True, st\<lparr>db := save_resume 0 0 (get_message_id_MAX (db st)) (db st)\<rparr>)"
      and "n < chunk_size (db st) \<or> offset_id st \<le> stop_at st"
  | (budget) "checkpoint n st =
        (True, st\<lparr>db := save_resume (offset_id st) (offset_date st) (stop_at st) (db st),
                   chunks_left := chunks_left st - 1\<rparr>)"
      and "\<not> n < chunk_size (db st)" and "\<not> offset_id st \<le> stop_at st"
      and "chunks_left st - 1 = 0"
  | (continue) "checkpoint n st =
        (False, st\<lparr>db := commit (save_resume (offset_id st) (offset_date st) (stop_at st) (db st)),
                    chunks_left := chunks_left st - 1\<rparr>)"
      and "\<not> n < chunk_size (db st)" and "\<not> offset_id st \<le> stop_at st"
      and "chunks_left st - 1 \<noteq> 0"
proof (cases "n < chunk_size (db st) \<or> offset_id st \<le> stop_at st")
  case True
  then have "checkpoint n st = (True, st\<lparr>db := save_resume 0 0 (get_message_id_MAX (db st)) (db st)\<rparr>)"
    by (auto simp: checkpoint_def)
  then show ?thesis using True by (rule update)
next
  case False
  show ?thesis
  proof (cases "chunks_left st - 1 = 0")
    case True
    with False show ?thesis by (intro budget) (simp_all add: checkpoint_def Let_def)
  next
    case nz: False
    with False show ?thesis by (intro continue) (simp_all add: checkpoint_def Let_def)
  qed
qed

section \<open>The resume cursor within one run\<close>

declare drain.simps [simp del]

lemma min_list_in: "(xs :: int list) \<noteq> [] \<Longrightarrow> min_list xs \<in> set xs"
  by (simp add: min_list_Min)

lemma MAX_save_resume [simp]: "get_message_id_MAX (save_resume a b c d) = get_message_id_MAX d"
  by (simp add: get_message_id_MAX_def save_resume_def)

lemma MAX_commit [simp]: "get_message_id_MAX (commit d) = get_message_id_MAX d"
  by (simp add: get_message_id_MAX_def commit_def)

lemma paging_cursors:
  assumes "history_contract r"
  shows "0 < chunk_size (db st) \<Longrightarrow> stop_at st \<le> get_message_id_MAX (db st) \<Longrightarrow> 0 \<le> offset_id st \<Longrightarrow>
         paging r dl target fuel st = Some out \<Longrightarrow>
         \<exists>L. resume_log (db (final out)) = resume_log (db st) @ L \<and> successively cursor_le L \<and>
             (\<forall>c \<in> set L. (offset_id st \<noteq> 0 \<longrightarrow> fst c \<le> offset_id st) \<and> 0 \<le> fst c \<and>
                           stop_at st \<le> snd (snd c))"
proof (induction fuel arbitrary: st)
  case 0
  then show ?case by simp
next
  case (Suc fuel)
  let ?st' = "st\<lparr>requests := requests st + 1\<rparr>"
  show ?case
  proof (cases "get_history r (requests st) (offset_id st) (offset_date st) (chunk_size (db st))")
    case (Inl err)
    with Suc.prems(4) have "final out = ?st'" by auto
    then show ?thesis by simp
  next
    case (Inr h)
    with assms have ids: "\<forall>m \<in> set (h_messages h). 0 < row_id m \<and> (offset_id st \<noteq> 0 \<longrightarrow> row_id m \<le> offset_id st)"
      unfolding history_contract_def by blast
    then have nonneg: "\<forall>m \<in> set (h_messages h). 0 \<le> row_id m" by auto
    let ?o = "process_page r dl target h ?st'"
    from process_page_frame [OF refl, where r = r and dl = dl and target = target and st = ?st' and h = h]
      nonneg
    have fr: "stop_at (final ?o) = stop_at st" "same_frame (db st) (db (final ?o))"
      "get_message_id_MAX (db st) \<le> get_message_id_MAX (db (final ?o))"
      by simp_all
    show ?thesis
    proof (cases ?o)
      case (Raised err st1)
      with Inr Suc.prems(4) have "final out = st1" by auto
      with fr Raised have "resume_log (db (final out)) = resume_log (db st)"
        by (simp add: same_frame_def)
      then show ?thesis by simp
    next
      case (Returned u st1)
      with fr have st1: "stop_at st1 = stop_at st" "chunk_size (db st1) = chunk_size (db st)"
        "resume_log (db st1) = resume_log (db st)"
        "get_message_id_MAX (db st) \<le> get_message_id_MAX (db st1)"
        by (simp_all add: same_frame_def)
      from process_page_offset [OF Returned]
      have off: "offset_id st1 =
         (if h_messages h = [] then offset_id st else min_list (map row_id (h_messages h)))"
        by simp
      let ?n = "int (length (h_messages h))"
      from Inr Returned Suc.prems(4)
      have run: "(case checkpoint ?n st1 of (True, st2) \<Rightarrow> Some (Returned () st2)
                   | (False, st2) \<Rightarrow> paging r dl target fuel st2) = Some out"
        by simp
      show ?thesis
      proof (cases ?n st1 rule: checkpoint_cases)
        case update
        with run have "final out = st1\<lparr>db := save_resume 0 0 (get_message_id_MAX (db st1)) (db st1)\<rparr>"
          by auto
        then have "resume_log (db (final out)) =
            resume_log (db st) @ [(0, 0, get_message_id_MAX (db st1))]"
          by (simp add: save_resume_def st1)
        moreover have "stop_at st \<le> get_message_id_MAX (db st1)"
          using st1(4) Suc.prems(2) by simp
        ultimately show ?thesis using Suc.prems(3) by simp
      next
        case budget
        from budget(2) st1(2) Suc.prems(1) have ne: "h_messages h \<noteq> []" by auto
        with off have "offset_id st1 \<in> row_id ` set (h_messages h)"
          using min_list_in [of "map row_id (h_messages h)"] by simp
        with ids have o1: "0 < offset_id st1" "offset_id st \<noteq> 0 \<longrightarrow> offset_id st1 \<le> offset_id st"
          by auto
        from budget(1) run
        have "final out = st1\<lparr>db := save_resume (offset_id st1) (offset_date st1) (stop_at st1) (db st1),
                   chunks_left := chunks_left st1 - 1\<rparr>"
          by auto
        then have "resume_log (db (final out)) =
            resume_log (db st) @ [(offset_id st1, offset_date st1, stop_at st)]"
          by (simp add: save_resume_def st1)
        with o1 show ?thesis by simp
      next
        case continue
        from continue(2) st1(2) Suc.prems(1) have ne: "h_messages h \<noteq> []" by auto
        with off have "offset_id st1 \<in> row_id ` set (h_messages h)"
          using min_list_in [of "map row_id (h_messages h)"] by simp
        with ids have o1: "0 < offset_id st1" "offset_id st \<noteq> 0 \<longrightarrow> offset_id st1 \<le> offset_id st"
          by auto
        let ?st2 = "st1\<lparr>db := commit (save_resume (offset_id st1) (offset_date st1) (stop_at st1) (db st1)),
                    chunks_left := chunks_left st1 - 1\<rparr>"
        from continue(1) run have p: "paging r dl target fuel ?st2 = Some out" by simp
        have a: "0 < chunk_size (db ?st2)"
          using Suc.prems(1) st1(2) by (simp add: commit_def save_resume_def)
        have b: "stop_at ?st2 \<le> get_message_id_MAX (db ?st2)"
          using st1(1,4) Suc.prems(2) by simp
        have c: "0 \<le> offset_id ?st2" using o1(1) by simp
        from Suc.IH [OF a b c p] obtain L where
          L: "resume_log (db (final out)) = resume_log (db ?st2) @ L" "successively cursor_le L"
            "\<forall>c \<in> set L. fst c \<le> offset_id st1 \<and> 0 \<le> fst c \<and> stop_at st \<le> snd (snd c)"
          using o1(1) st1(1) by auto
        let ?c = "(offset_id st1, offset_date st1, stop_at st)"
        have log: "resume_log (db (final out)) = resume_log (db st) @ (?c # L)"
          using L(1) by (simp add: commit_def save_resume_def st1)
        have "successively cursor_le (?c # L)"
        proof (cases L)
          case Nil
          then show ?thesis by simp
        next
          case (Cons c' L')
          with L(3) have "cursor_le ?c c'" by (simp add: cursor_le_def)
          with L(2) Cons show ?thesis by simp
        qed
        moreover have "\<forall>c \<in> set (?c # L). (offset_id st \<noteq> 0 \<longrightarrow> fst c \<le> offset_id st) \<and> 0 \<le> fst c \<and>
                           stop_at st \<le> snd (snd c)"
          using L(3) o1 by auto
        ultimately show ?thesis using log by blast
      qed
    qed
  qed
qed

lemma simulated_remote_contract:
  "\<forall>m \<in> set msgs. 0 < row_id m \<Longrightarrow> history_contract (simulated_remote msgs)"
  by (auto simp: history_contract_def simulated_remote_def serve_def dest: in_set_takeD)

lemma commit_frame [simp]:
  "resume_log (commit d) = resume_log d" "message_rows (commit d) = message_rows d"
  "chunk_size (commit d) = chunk_size d" "resume (commit d) = resume d"
  by (simp_all add: commit_def)

lemma drain_frame: "resume_log (db (final (drain r st))) = resume_log (db st)"
proof (induction r st rule: drain.induct)
  case (1 r st)
  show ?case
  proof (cases "queue_bool (queue st)")
    case False
    then show ?thesis by (subst drain.simps) simp
  next
    case True
    show ?thesis
    proof (cases "pop_pending r (queue st)")
      case (Raised err q1)
      with True show ?thesis by (subst drain.simps) simp
    next
      case (Returned n q1)
      with True 1 [OF _ Returned] show ?thesis by (subst drain.simps) simp
    qed
  qed
qed

lemma start_sync_Returned:
  assumes "start_sync r dl target d = Returned u st"
  shows "(offset_id st, offset_date st, stop_at st) = resume d \<and> chunk_size (db st) = chunk_size d \<and>
         resume_log (db st) = resume_log d \<and> message_rows (db st) = message_rows d"
proof -
  have lp: "\<And>d1. final (list_participants r target d) = d1 \<Longrightarrow>
      resume d1 = resume d \<and> chunk_size d1 = chunk_size d \<and> resume_log d1 = resume_log d \<and>
      message_rows d1 = message_rows d"
    by (auto simp: list_participants_def dump_participants_delta_def split: sum.splits error.splits)
  show ?thesis
    using assms lp
    by (auto simp: start_sync_def Let_def get_resume_def split: outcome.splits prod.splits)
qed

lemma start_sync_Raised:
  "start_sync r dl target d = Raised err st \<Longrightarrow> resume_log (db st) = resume_log d"
  by (auto simp: start_sync_def Let_def list_participants_def dump_participants_delta_def
      split: outcome.splits prod.splits sum.splits error.splits if_splits)

text \<open>
  Claim C3. Take a remote that keeps the contract of the data model (positive ids, pages
  below the offset asked for), a positive chunk size, and a stored cursor whose offset is
  not negative and whose stop-at is not above the highest stored message id. Then in any
  run of \<open>save_messages\<close> that ends, by returning or by an exception, the cursors the run
  persists, in the order it persists them, have offset ids that never increase and stop-at
  values that never decrease, and no persisted stop-at is below the one the run loaded.
\<close>

theorem cursor_monotone:
  assumes "history_contract r" and "0 < chunk_size d"
    and "resume d = (off, date, stop)" and "0 \<le> off" and "stop \<le> get_message_id_MAX d"
    and "save_messages r dl target d fuel = Some out"
  shows "\<exists>L. resume_log (db (final out)) = resume_log d @ L \<and> successively cursor_le L \<and>
             (\<forall>c \<in> set L. stop \<le> snd (snd c))"
proof (cases "start_sync r dl target d")
  case (Raised err st)
  with assms(6) have "final out = st" by (auto simp: save_messages_def)
  with start_sync_Raised [OF Raised] show ?thesis by simp
next
  case (Returned u st)
  from start_sync_Returned [OF Returned] assms(3)
  have st: "offset_id st = off" "stop_at st = stop" "chunk_size (db st) = chunk_size d"
    "resume_log (db st) = resume_log d" "message_rows (db st) = message_rows d"
    by auto
  from st(5) have mx: "get_message_id_MAX (db st) = get_message_id_MAX d"
    by (simp add: get_message_id_MAX_def)
  from Returned assms(6) obtain po where po: "paging r dl target fuel st = Some po"
    by (auto simp: save_messages_def split: option.splits)
  from paging_cursors [OF assms(1) _ _ _ po] st mx assms(2,4,5)
  obtain L where L: "resume_log (db (final po)) = resume_log d @ L" "successively cursor_le L"
    "\<forall>c \<in> set L. stop \<le> snd (snd c)"
    by auto
  have "resume_log (db (final out)) = resume_log (db (final po))"
  proof (cases po)
    case (Raised err st1)
    with Returned po assms(6) show ?thesis by (auto simp: save_messages_def)
  next
    case r: (Returned v st1)
    with Returned po assms(6) have "out = drain r (st1\<lparr>db := commit (db st1)\<rparr>)"
      by (auto simp: save_messages_def)
    with r show ?thesis by (simp add: drain_frame)
  qed
  with L show ?thesis by auto
qed

lemma five_messages_run:
  "map_option (\<lambda>out. resume_log (db (final out)))
     (save_messages (simulated_remote (plain_messages [5, 4, 3, 2, 1]))
        \<lparr>max_size = Some 0, types = {}\<rparr> (User 9 False False) (empty_dumper 2 0) 4) =
   Some [(4, 40, 0), (2, 20, 0), (0, 0, 5)]"
  by code_simp

theorem cursor_monotone_witness:
  "history_contract (simulated_remote (plain_messages [5, 4, 3, 2, 1])) \<and>
   0 < chunk_size (empty_dumper 2 0) \<and> resume (empty_dumper 2 0) = (0, 0, 0) \<and>
   (0::int) \<le> get_message_id_MAX (empty_dumper 2 0) \<and>
   map_option (\<lambda>out. resume_log (db (final out)))
     (save_messages (simulated_remote (plain_messages [5, 4, 3, 2, 1]))
        \<lparr>max_size = Some 0, types = {}\<rparr> (User 9 False False) (empty_dumper 2 0) 4) =
     Some [(4, 40, 0), (2, 20, 0), (0, 0, 5)] \<and>
   successively cursor_le [(4, 40, 0), (2, 20, 0), (0, 0, 5)]"
proof -
  let ?r = "simulated_remote (plain_messages [5, 4, 3, 2, 1])"
  let ?d = "empty_dumper 2 0"
  have c: "history_contract ?r"
    by (rule simulated_remote_contract) (simp add: plain_messages_def)
  have k: "0 < chunk_size ?d" and res: "resume ?d = (0, 0, 0)"
    and mx: "(0::int) \<le> get_message_id_MAX ?d"
    by (simp_all add: empty_dumper_def get_message_id_MAX_def)
  note run = five_messages_run
  then obtain out where
    out: "save_messages ?r \<lparr>max_size = Some 0, types = {}\<rparr> (User 9 False False) ?d 4 = Some out"
    and log: "resume_log (db (final out)) = [(4, 40, 0), (2, 20, 0), (0, 0, 5)]"
    by auto
  from cursor_monotone [OF c k res order_refl mx out] log
  have "successively cursor_le [(4, 40, 0), (2, 20, 0), (0, 0, 5)]"
    by (auto simp: empty_dumper_def)
  with c k res mx run show ?thesis by blast
qed

section \<open>How the paging loop ends\<close>

text \<open>
  Claim C1. Let the remote answer the next history request with a page that the loop body
  works through without an exception. (a) If the page holds fewer messages than the limit
  asked for, the loop ends with the cursor (0, 0, highest stored message id) persisted.
  (b) Otherwise, if the new offset id is at most the stop-at that was loaded, the loop ends
  with that same update. (c) Otherwise the cursor (new offset id, new offset date, old
  stop-at) is persisted; the loop then ends, stop-at untouched, if the page budget has
  reached zero, and goes on to the next page if not.
\<close>

theorem termination_order:
  assumes "get_history r (requests st) (offset_id st) (offset_date st) (chunk_size (db st)) = Inr h"
    and "process_page r dl target h (st\<lparr>requests := requests st + 1\<rparr>) = Returned () st1"
  shows
    "(int (length (h_messages h)) < chunk_size (db st) \<longrightarrow>
        paging r dl target (Suc fuel) st =
          Some (Returned () (st1\<lparr>db := save_resume 0 0 (get_message_id_MAX (db st1)) (db st1)\<rparr>))) \<and>
     (\<not> int (length (h_messages h)) < chunk_size (db st) \<and> offset_id st1 \<le> stop_at st \<longrightarrow>
        paging r dl target (Suc fuel) st =
          Some (Returned () (st1\<lparr>db := save_resume 0 0 (get_message_id_MAX (db st1)) (db st1)\<rparr>))) \<and>
     (\<not> int (length (h_messages h)) < chunk_size (db st) \<and> \<not> offset_id st1 \<le> stop_at st \<and>
      chunks_left st - 1 = 0 \<longrightarrow>
        paging r dl target (Suc fuel) st =
          Some (Returned ()
            (st1\<lparr>db := save_resume (offset_id st1) (offset_date st1) (stop_at st) (db st1),
                  chunks_left := 0\<rparr>))) \<and>
     (\<not> int (length (h_messages h)) < chunk_size (db st) \<and> \<not> offset_id st1 \<le> stop_at st \<and>
      chunks_left st - 1 \<noteq> 0 \<longrightarrow>
        paging r dl target (Suc fuel) st =
          paging r dl target fuel
            (st1\<lparr>db := commit (save_resume (offset_id st1) (offset_date st1) (stop_at st) (db st1)),
                  chunks_left := chunks_left st - 1\<rparr>))"
proof -
  let ?n = "int (length (h_messages h))"
  from process_page_frame [OF refl, where r = r and dl = dl and target = target and h = h
      and st = "st\<lparr>requests := requests st + 1\<rparr>"] assms(2)
  have fr: "stop_at st1 = stop_at st" "chunks_left st1 = chunks_left st"
    "chunk_size (db st1) = chunk_size (db st)"
    by (simp_all add: same_frame_def)
  from assms have p: "paging r dl target (Suc fuel) st =
      (case checkpoint ?n st1 of (True, st2) \<Rightarrow> Some (Returned () st2)
       | (False, st2) \<Rightarrow> paging r dl target fuel st2)"
    by simp
  show ?thesis
  proof (cases ?n st1 rule: checkpoint_cases)
    case update
    with p fr show ?thesis by auto
  next
    case budget
    with p fr show ?thesis by auto
  next
    case continue
    with p fr show ?thesis by auto
  qed
qed

lemma short_page_run:
  "map_option (\<lambda>out. (resume (db (final out)), requests (final out)))
     (paging (simulated_remote (plain_messages [3, 2, 1])) \<lparr>max_size = Some 0, types = {}\<rparr>
        (User 9 False False) 1 (loop_entry 0 0 0 (empty_dumper 5 1))) =
   Some ((0, 0, 3), 1)"
  by code_simp

theorem termination_order_witness:
  "get_history (simulated_remote (plain_messages [3, 2, 1]))
     (requests (loop_entry 0 0 0 (empty_dumper 5 1))) (offset_id (loop_entry 0 0 0 (empty_dumper 5 1)))
     (offset_date (loop_entry 0 0 0 (empty_dumper 5 1)))
     (chunk_size (db (loop_entry 0 0 0 (empty_dumper 5 1)))) = Inr three_page \<and>
   process_page (simulated_remote (plain_messages [3, 2, 1])) \<lparr>max_size = Some 0, types = {}\<rparr>
     (User 9 False False) three_page
     ((loop_entry 0 0 0 (empty_dumper 5 1))\<lparr>requests := 1\<rparr>) =
   Returned ()
     (final (process_page (simulated_remote (plain_messages [3, 2, 1]))
        \<lparr>max_size = Some 0, types = {}\<rparr> (User 9 False False) three_page
        ((loop_entry 0 0 0 (empty_dumper 5 1))\<lparr>requests := 1\<rparr>))) \<and>
   int (length (h_messages three_page)) < chunk_size (db (loop_entry 0 0 0 (empty_dumper 5 1))) \<and>
   map_option (\<lambda>out. (resume (db (final out)), requests (final out)))
     (paging (simulated_remote (plain_messages [3, 2, 1])) \<lparr>max_size = Some 0, types = {}\<rparr>
        (User 9 False False) (Suc 0) (loop_entry 0 0 0 (empty_dumper 5 1))) =
   Some ((0, 0, get_message_id_MAX (db (final
      (process_page (simulated_remote (plain_messages [3, 2, 1]))
        \<lparr>max_size = Some 0, types = {}\<rparr> (User 9 False False) three_page
        ((loop_entry 0 0 0 (empty_dumper 5 1))\<lparr>requests := 1\<rparr>))))), 1)"
proof -
  let ?r = "simulated_remote (plain_messages [3, 2, 1])"
  let ?dl = "\<lparr>max_size = Some 0, types = {}\<rparr>"
  let ?st = "loop_entry 0 0 0 (empty_dumper 5 1)"
  let ?P = "process_page ?r ?dl (User 9 False False) three_page (?st\<lparr>requests := 1\<rparr>)"
  have h: "get_history ?r (requests ?st) (offset_id ?st) (offset_date ?st) (chunk_size (db ?st)) =
      Inr three_page"
    by (simp add: simulated_remote_def serve_def loop_entry_def empty_dumper_def three_page_def
        plain_messages_def)
  have "case ?P of Returned _ _ \<Rightarrow> True | Raised _ _ \<Rightarrow> False" by code_simp
  then obtain s where s: "?P = Returned () s" by (cases ?P) auto
  have rq: "?st\<lparr>requests := requests ?st + 1\<rparr> = ?st\<lparr>requests := 1\<rparr>"
    by (simp add: loop_entry_def)
  have n: "int (length (h_messages three_page)) < chunk_size (db ?st)"
    by (simp add: three_page_def plain_messages_def loop_entry_def empty_dumper_def)
  from termination_order [OF h, of ?dl "User 9 False False" s 0] s rq n
  have "paging ?r ?dl (User 9 False False) (Suc 0) ?st =
      Some (Returned () (s\<lparr>db := save_resume 0 0 (get_message_id_MAX (db s)) (db s)\<rparr>))"
    by simp
  moreover from process_page_frame [OF refl, where r = ?r and dl = ?dl and target = "User 9 False False"
      and h = three_page and st = "?st\<lparr>requests := 1\<rparr>"] s
  have "requests s = 1" by simp
  ultimately show ?thesis using h s n by (simp add: save_resume_def)
qed

section \<open>Catching up with an earlier run\<close>

lemma last_page_stops:
  assumes "0 < chunk_size (db st)"
    and "get_history r (requests st) off date lim = Inr h"
    and "\<forall>m \<in> set (h_messages h). row_id m \<le> stop_at st"
    and "off = offset_id st" "date = offset_date st" "lim = chunk_size (db st)"
  shows "\<exists>out. paging r dl target (Suc fuel) st = Some out \<and> requests (final out) = requests st + 1 \<and>
          (\<exists>ids. upsert_log (db (final out)) = upsert_log (db st) @ ids \<and>
                 set ids \<subseteq> row_id ` set (h_messages h)) \<and>
          (raised_error out = None \<longrightarrow>
             upsert_log (db (final out)) = upsert_log (db st) @ upserted_ids h)"
proof -
  let ?st' = "st\<lparr>requests := requests st + 1\<rparr>"
  let ?o = "process_page r dl target h ?st'"
  from process_page_frame [OF refl, where r = r and dl = dl and target = target and h = h and st = ?st']
  have fr: "stop_at (final ?o) = stop_at st" "requests (final ?o) = requests st + 1"
    "chunk_size (db (final ?o)) = chunk_size (db st)"
    and lg: "\<exists>ids. upsert_log (db (final ?o)) = upsert_log (db st) @ ids \<and>
                 set ids \<subseteq> row_id ` set (h_messages h)"
    by (simp_all add: same_frame_def)
  show ?thesis
  proof (cases ?o)
    case (Raised err st1)
    with assms(2,4,5,6) have "paging r dl target (Suc fuel) st = Some (Raised err st1)" by simp
    with fr lg Raised show ?thesis by (simp add: raised_error_def)
  next
    case (Returned u st1)
    let ?n = "int (length (h_messages h))"
    from Returned assms(2,4,5,6)
    have p: "paging r dl target (Suc fuel) st =
        (case checkpoint ?n st1 of (True, st2) \<Rightarrow> Some (Returned () st2)
         | (False, st2) \<Rightarrow> paging r dl target fuel st2)"
      by simp
    from fr lg Returned have st1: "stop_at st1 = stop_at st" "requests st1 = requests st + 1"
      "chunk_size (db st1) = chunk_size (db st)"
      "\<exists>ids. upsert_log (db st1) = upsert_log (db st) @ ids \<and> set ids \<subseteq> row_id ` set (h_messages h)"
      by simp_all
    from process_page_upserts(1) [OF Returned]
    have ex: "upsert_log (db st1) = upsert_log (db st) @ upserted_ids h" by simp
    have stop: "?n < chunk_size (db st1) \<or> offset_id st1 \<le> stop_at st1"
    proof (cases "h_messages h = []")
      case True
      with assms(1) st1(3) show ?thesis by simp
    next
      case False
      with process_page_offset [OF Returned]
      have "offset_id st1 = min_list (map row_id (h_messages h))" by simp
      with False min_list_in [of "map row_id (h_messages h)"]
      have "offset_id st1 \<in> row_id ` set (h_messages h)" by simp
      with assms(3) st1(1) show ?thesis by auto
    qed
    have "checkpoint ?n st1 =
        (True, st1\<lparr>db := save_resume 0 0 (get_message_id_MAX (db st1)) (db st1)\<rparr>)"
      using stop by (cases ?n st1 rule: checkpoint_cases) auto
    with p st1 ex show ?thesis by (simp add: save_resume_def)
  qed
qed

text \<open>
  Claim C2, amended. Let the page size be positive, let the reply to the next request be a
  non-empty page whose lowest id is stop-at plus one, and let every later request below that
  offset be answered with ids of at most stop-at. Then the loop ends, by returning or by an
  exception, after at most one more request, and every message it hands to the storage
  comes from that page or from the one extra page; no later page is fetched. When the loop
  returns, what it has upserted is known exactly. If the page is shorter than the page size
  or the page budget ends with it, there is no further request and the content and service
  messages of the page are upserted, in order. Otherwise the extra page is requested below
  stop-at plus one, with the date of the oldest row of the page, and the content and service
  messages of both pages are upserted, those of the extra page again.
\<close>

theorem one_extra_page:
  assumes "0 < chunk_size (db st)"
    and "get_history r (requests st) (offset_id st) (offset_date st) (chunk_size (db st)) = Inr hF"
    and "h_messages hF \<noteq> []"
    and "min_list (map row_id (h_messages hF)) = stop_at st + 1"
    and "later_replies_seen r (requests st) (stop_at st)"
  shows "\<exists>out. paging r dl target (Suc (Suc fuel)) st = Some out \<and>
           requests (final out) \<le> requests st + 2 \<and>
           (\<exists>ids. upsert_log (db (final out)) = upsert_log (db st) @ ids \<and>
              (\<forall>i \<in> set ids. i \<in> row_id ` set (h_messages hF) \<or> from_extra_reply r (requests st) (stop_at st) i)) \<and>
           (raised_error out = None \<longrightarrow>
              (if int (length (h_messages hF)) < chunk_size (db st) \<or> chunks_left st = 1
               then requests (final out) = requests st + 1 \<and>
                    upsert_log (db (final out)) = upsert_log (db st) @ upserted_ids hF
               else requests (final out) = requests st + 2 \<and>
                    (\<exists>t hE. min_date (h_messages hF) = Inr t \<and>
                       get_history r (Suc (requests st)) (stop_at st + 1) t (chunk_size (db st)) = Inr hE \<and>
                       upsert_log (db (final out)) =
                         upsert_log (db st) @ upserted_ids hF @ upserted_ids hE)))"
proof -
  let ?st' = "st\<lparr>requests := requests st + 1\<rparr>"
  let ?o = "process_page r dl target hF ?st'"
  let ?short = "int (length (h_messages hF)) < chunk_size (db st) \<or> chunks_left st = 1"
  from process_page_frame [OF refl, where r = r and dl = dl and target = target and h = hF and st = ?st']
  have fr: "stop_at (final ?o) = stop_at st" "requests (final ?o) = requests st + 1"
    "chunk_size (db (final ?o)) = chunk_size (db st)" "chunks_left (final ?o) = chunks_left st"
    and lg: "\<exists>ids. upsert_log (db (final ?o)) = upsert_log (db st) @ ids \<and>
                 set ids \<subseteq> row_id ` set (h_messages hF)"
    by (simp_all add: same_frame_def)
  have goal: ?thesis
    if "paging r dl target (Suc (Suc fuel)) st = Some out"
      and "requests (final out) \<le> requests st + 2"
      and "upsert_log (db (final out)) = upsert_log (db st) @ ids"
      and "\<forall>i \<in> set ids. i \<in> row_id ` set (h_messages hF) \<or> from_extra_reply r (requests st) (stop_at st) i"
      and "raised_error out = None \<longrightarrow>
              (if ?short
               then requests (final out) = requests st + 1 \<and>
                    upsert_log (db (final out)) = upsert_log (db st) @ upserted_ids hF
               else requests (final out) = requests st + 2 \<and>
                    (\<exists>t hE. min_date (h_messages hF) = Inr t \<and>
                       get_history r (Suc (requests st)) (stop_at st + 1) t (chunk_size (db st)) = Inr hE \<and>
                       upsert_log (db (final out)) =
                         upsert_log (db st) @ upserted_ids hF @ upserted_ids hE))"
    for out ids
    by (intro exI [of _ out] conjI exI [of _ ids]) (rule that)+
  show ?thesis
  proof (cases ?o)
    case (Raised err st1)
    with assms(2) have "paging r dl target (Suc (Suc fuel)) st = Some (Raised err st1)" by simp
    moreover from lg Raised obtain ids where "upsert_log (db st1) = upsert_log (db st) @ ids"
      "set ids \<subseteq> row_id ` set (h_messages hF)" by auto
    moreover from fr Raised have "requests st1 \<le> requests st + 2" by simp
    ultimately show ?thesis
      by (intro goal [of "Raised err st1" ids]) (auto simp: raised_error_def)
  next
    case (Returned u st1)
    let ?n = "int (length (h_messages hF))"
    from Returned assms(2)
    have p: "paging r dl target (Suc (Suc fuel)) st =
        (case checkpoint ?n st1 of (True, st2) \<Rightarrow> Some (Returned () st2)
         | (False, st2) \<Rightarrow> paging r dl target (Suc fuel) st2)"
      by simp
    from fr lg Returned obtain ids1 where st1: "stop_at st1 = stop_at st"
      "requests st1 = requests st + 1" "chunk_size (db st1) = chunk_size (db st)"
      "chunks_left st1 = chunks_left st"
      and l1: "upsert_log (db st1) = upsert_log (db st) @ ids1"
        "set ids1 \<subseteq> row_id ` set (h_messages hF)"
      by auto
    from process_page_upserts [OF Returned] assms(3)
    have ex1: "upsert_log (db st1) = upsert_log (db st) @ upserted_ids hF"
      and dt: "min_date (h_messages hF) = Inr (offset_date st1)"
      by simp_all
    have o1: "offset_id st1 = stop_at st + 1"
      using process_page_offset [OF Returned] assms(3,4) by simp
    from l1(2) have in1: "\<forall>i \<in> set ids1. i \<in> row_id ` set (h_messages hF) \<or> from_extra_reply r (requests st) (stop_at st) i"
      by auto
    show ?thesis
    proof (cases ?n st1 rule: checkpoint_cases)
      case update
      let ?e = "st1\<lparr>db := save_resume 0 0 (get_message_id_MAX (db st1)) (db st1)\<rparr>"
      from update(1) p have "paging r dl target (Suc (Suc fuel)) st = Some (Returned () ?e)"
        by (simp only: prod.case if_True bool.case)
      moreover from update(2) o1 st1 have sh: ?short by simp
      ultimately show ?thesis
        using in1 st1 l1 ex1 by (intro goal [of "Returned () ?e" ids1]) (simp_all add: save_resume_def)
    next
      case budget
      let ?e = "st1\<lparr>db := save_resume (offset_id st1) (offset_date st1) (stop_at st1) (db st1),
                   chunks_left := chunks_left st1 - 1\<rparr>"
      from budget(1) p have "paging r dl target (Suc (Suc fuel)) st = Some (Returned () ?e)"
        by (simp only: prod.case if_True bool.case)
      moreover from budget(4) st1 have sh: ?short by simp
      ultimately show ?thesis
        using in1 st1 l1 ex1 by (intro goal [of "Returned () ?e" ids1]) (simp_all add: save_resume_def)
    next
      case continue
      let ?st2 = "st1\<lparr>db := commit (save_resume (offset_id st1) (offset_date st1) (stop_at st1) (db st1)),
                    chunks_left := chunks_left st1 - 1\<rparr>"
      from continue(2,4) st1 have nsh: "\<not> ?short" by simp
      from continue(1) p have p2: "paging r dl target (Suc (Suc fuel)) st = paging r dl target (Suc fuel) ?st2"
        by (simp only: prod.case if_False bool.case)
      have s2: "requests ?st2 = Suc (requests st)" "stop_at ?st2 = stop_at st"
        "chunk_size (db ?st2) = chunk_size (db st)" "upsert_log (db ?st2) = upsert_log (db st) @ ids1"
        "offset_date ?st2 = offset_date st1"
        using st1 l1 by (simp_all add: commit_def save_resume_def)
      have o2: "offset_id ?st2 = stop_at st + 1"
        using o1 by simp
      show ?thesis
      proof (cases "get_history r (requests ?st2) (offset_id ?st2) (offset_date ?st2) (chunk_size (db ?st2))")
        case (Inl err)
        let ?e = "?st2\<lparr>requests := requests ?st2 + 1\<rparr>"
        from Inl have "paging r dl target (Suc fuel) ?st2 = Some (Raised err ?e)"
          by (simp del: One_nat_def)
        with p2 have "paging r dl target (Suc (Suc fuel)) st = Some (Raised err ?e)"
          by (simp only:)
        then show ?thesis
          using in1 s2 by (intro goal [of "Raised err ?e" ids1]) (simp_all add: raised_error_def)
      next
        case (Inr hE)
        have lt: "requests st < requests ?st2" using s2(1) by simp
        have Inr': "get_history r (requests ?st2) (stop_at st + 1) (offset_date ?st2)
            (chunk_size (db ?st2)) = Inr hE"
          using Inr unfolding o2 .
        from assms(5) have "\<And>n date lim h. requests st < n \<Longrightarrow>
            get_history r n (stop_at st + 1) date lim = Inr h \<Longrightarrow>
            \<forall>m \<in> set (h_messages h). row_id m \<le> stop_at st"
          unfolding later_replies_seen_def by blast
        from this [OF lt Inr'] have "\<forall>m \<in> set (h_messages hE). row_id m \<le> stop_at st" .
        with s2(2) have seen: "\<forall>m \<in> set (h_messages hE). row_id m \<le> stop_at ?st2"
          by (simp only:)
        have c: "0 < chunk_size (db ?st2)" using assms(1) s2(3) by simp
        from last_page_stops [OF c Inr seen refl refl refl, of dl target fuel]
        obtain out ids2 where out: "paging r dl target (Suc fuel) ?st2 = Some out"
          "requests (final out) = requests ?st2 + 1"
          "upsert_log (db (final out)) = upsert_log (db ?st2) @ ids2"
          "set ids2 \<subseteq> row_id ` set (h_messages hE)"
          "raised_error out = None \<longrightarrow>
             upsert_log (db (final out)) = upsert_log (db ?st2) @ upserted_ids hE"
          by (elim exE conjE) (rule that)
        from Inr' have g: "get_history r (Suc (requests st)) (stop_at st + 1) (offset_date ?st2)
            (chunk_size (db ?st2)) = Inr hE" unfolding s2(1) .
        with out(4) have "\<forall>i \<in> set ids2. from_extra_reply r (requests st) (stop_at st) i"
          unfolding from_extra_reply_def by blast
        with in1 have "\<forall>i \<in> set (ids1 @ ids2).
            i \<in> row_id ` set (h_messages hF) \<or> from_extra_reply r (requests st) (stop_at st) i"
          by auto
        moreover have "upsert_log (db (final out)) = upsert_log (db st) @ (ids1 @ ids2)"
          using out(3) s2(4) by simp
        moreover have rq: "requests (final out) = requests st + 2" using out(2) s2(1) by simp
        then have "requests (final out) \<le> requests st + 2" by simp
        moreover from p2 out(1) have "paging r dl target (Suc (Suc fuel)) st = Some out"
          by (simp only:)
        moreover have "raised_error out = None \<longrightarrow>
              (if ?short
               then requests (final out) = requests st + 1 \<and>
                    upsert_log (db (final out)) = upsert_log (db st) @ upserted_ids hF
               else requests (final out) = requests st + 2 \<and>
                    (\<exists>t hE. min_date (h_messages hF) = Inr t \<and>
                       get_history r (Suc (requests st)) (stop_at st + 1) t (chunk_size (db st)) = Inr hE \<and>
                       upsert_log (db (final out)) =
                         upsert_log (db st) @ upserted_ids hF @ upserted_ids hE))"
        proof
          assume "raised_error out = None"
          with out(5) have "upsert_log (db (final out)) = upsert_log (db ?st2) @ upserted_ids hE"
            by blast
          with s2(4) l1(1) ex1
          have lg2: "upsert_log (db (final out)) = upsert_log (db st) @ upserted_ids hF @ upserted_ids hE"
            by simp
          from g s2(3,5) have g': "get_history r (Suc (requests st)) (stop_at st + 1) (offset_date st1)
            (chunk_size (db st)) = Inr hE" by (simp only:)
          from dt g' lg2 have "\<exists>t hE. min_date (h_messages hF) = Inr t \<and>
                       get_history r (Suc (requests st)) (stop_at st + 1) t (chunk_size (db st)) = Inr hE \<and>
                       upsert_log (db (final out)) =
                         upsert_log (db st) @ upserted_ids hF @ upserted_ids hE"
            by blast
          with nsh rq show "if ?short
               then requests (final out) = requests st + 1 \<and>
                    upsert_log (db (final out)) = upsert_log (db st) @ upserted_ids hF
               else requests (final out) = requests st + 2 \<and>
                    (\<exists>t hE. min_date (h_messages hF) = Inr t \<and>
                       get_history r (Suc (requests st)) (stop_at st + 1) t (chunk_size (db st)) = Inr hE \<and>
                       upsert_log (db (final out)) =
                         upsert_log (db st) @ upserted_ids hF @ upserted_ids hE)"
            by (simp only: if_False simp_thms)
        qed
        ultimately show ?thesis by (intro goal [of out "ids1 @ ids2"])
      qed
    qed
  qed
qed

lemma caught_up_run:
  "map_option (\<lambda>out. (upsert_log (db (final out)), requests (final out), resume (db (final out))))
     (paging (simulated_remote (plain_messages [5, 4, 3, 2, 1])) \<lparr>max_size = Some 0, types = {}\<rparr>
        (User 9 False False) 2 (loop_entry 0 0 3 (resumed_dumper 2 0 [3, 2, 1] 3))) =
   Some ([5, 4, 3, 2], 2, (0, 0, 5))"
  by code_simp


lemma caught_up_returns:
  "map_option raised_error
     (paging (simulated_remote (plain_messages [5, 4, 3, 2, 1])) \<lparr>max_size = Some 0, types = {}\<rparr>
        (User 9 False False) 2 (loop_entry 0 0 3 (resumed_dumper 2 0 [3, 2, 1] 3))) =
   Some None"
  by code_simp

text \<open>
  When the download of a media of the extra page raises, the run ends there and the rows of
  the extra page from that one on are not upserted.
\<close>

lemma extra_page_cut_short:
  "map_option (\<lambda>out. (upsert_log (db (final out)), requests (final out), raised_error out))
     (paging (refusing_remote
          (plain_messages [5, 4] @ [Message 3 30 (Some (MessageMediaPhoto (Photo 7))) None] @
             plain_messages [2, 1]))
        \<lparr>max_size = Some 1, types = {}\<rparr>
        (User 9 False False) 2 (loop_entry 0 0 3 (resumed_dumper 2 0 [3, 2, 1] 3))) =
   Some ([5, 4], 2, Some RPCError)"
  by code_simp

lemma serve_later_replies: "stop + 1 \<noteq> 0 \<Longrightarrow> later_replies_seen (simulated_remote msgs) k stop"
  by (auto simp: later_replies_seen_def simulated_remote_def serve_def dest!: in_set_takeD)

text \<open>
  Claim C2 as stated fails: with messages 1 to 3 stored by an earlier run and stop-at 3, the
  first page holds 5 and 4, the extra page holds 3 and 2, and both are upserted again.
\<close>

theorem repersist_counterexample:
  "get_history (simulated_remote (plain_messages [5, 4, 3, 2, 1])) 0 0 0 2 =
     Inr \<lparr>h_messages = plain_messages [5, 4], h_users = [], h_chats = [], h_count = Some 5\<rparr> \<and>
   min_list (map row_id (plain_messages [5, 4])) =
     stop_at (loop_entry 0 0 3 (resumed_dumper 2 0 [3, 2, 1] 3)) + 1 \<and>
   later_replies_seen (simulated_remote (plain_messages [5, 4, 3, 2, 1])) 0 3 \<and>
   map fst (message_rows (resumed_dumper 2 0 [3, 2, 1] 3)) = [3, 2, 1] \<and>
   map_option (\<lambda>out. (upsert_log (db (final out)), requests (final out), resume (db (final out))))
     (paging (simulated_remote (plain_messages [5, 4, 3, 2, 1])) \<lparr>max_size = Some 0, types = {}\<rparr>
        (User 9 False False) 2 (loop_entry 0 0 3 (resumed_dumper 2 0 [3, 2, 1] 3))) =
   Some ([5, 4, 3, 2], 2, (0, 0, 5))"
proof -
  have "get_history (simulated_remote (plain_messages [5, 4, 3, 2, 1])) 0 0 0 2 =
     Inr \<lparr>h_messages = plain_messages [5, 4], h_users = [], h_chats = [], h_count = Some 5\<rparr>"
    by (simp add: simulated_remote_def serve_def plain_messages_def)
  moreover have "min_list (map row_id (plain_messages [5, 4])) =
     stop_at (loop_entry 0 0 3 (resumed_dumper 2 0 [3, 2, 1] 3)) + 1"
    by (simp add: plain_messages_def loop_entry_def)
  moreover have "map fst (message_rows (resumed_dumper 2 0 [3, 2, 1] 3)) = [3, 2, 1]"
    by (simp add: resumed_dumper_def empty_dumper_def)
  moreover have "later_replies_seen (simulated_remote (plain_messages [5, 4, 3, 2, 1])) 0 3"
    by (rule serve_later_replies) simp
  ultimately show ?thesis using caught_up_run by blast
qed

theorem one_extra_page_witness:
  "0 < chunk_size (db (loop_entry 0 0 3 (resumed_dumper 2 0 [3, 2, 1] 3))) \<and>
   get_history (simulated_remote (plain_messages [5, 4, 3, 2, 1]))
     (requests (loop_entry 0 0 3 (resumed_dumper 2 0 [3, 2, 1] 3)))
     (offset_id (loop_entry 0 0 3 (resumed_dumper 2 0 [3, 2, 1] 3)))
     (offset_date (loop_entry 0 0 3 (resumed_dumper 2 0 [3, 2, 1] 3)))
     (chunk_size (db (loop_entry 0 0 3 (resumed_dumper 2 0 [3, 2, 1] 3)))) =
     Inr \<lparr>h_messages = plain_messages [5, 4], h_users = [], h_chats = [], h_count = Some 5\<rparr> \<and>
   plain_messages [5, 4] \<noteq> [] \<and>
   min_list (map row_id (plain_messages [5, 4])) =
     stop_at (loop_entry 0 0 3 (resumed_dumper 2 0 [3, 2, 1] 3)) + 1 \<and>
   later_replies_seen (simulated_remote (plain_messages [5, 4, 3, 2, 1]))
     (requests (loop_entry 0 0 3 (resumed_dumper 2 0 [3, 2, 1] 3)))
     (stop_at (loop_entry 0 0 3 (resumed_dumper 2 0 [3, 2, 1] 3))) \<and>
   (\<exists>out. paging (simulated_remote (plain_messages [5, 4, 3, 2, 1])) \<lparr>max_size = Some 0, types = {}\<rparr>
        (User 9 False False) 2 (loop_entry 0 0 3 (resumed_dumper 2 0 [3, 2, 1] 3)) = Some out \<and>
      raised_error out = None \<and> requests (final out) = 2 \<and>
      upsert_log (db (final out)) = [5, 4, 3, 2])"
proof -
  let ?r = "simulated_remote (plain_messages [5, 4, 3, 2, 1])"
  let ?st = "loop_entry 0 0 3 (resumed_dumper 2 0 [3, 2, 1] 3)"
  let ?hF = "\<lparr>h_messages = plain_messages [5, 4], h_users = [], h_chats = [], h_count = Some 5\<rparr>"
  let ?dl = "\<lparr>max_size = Some 0, types = {}\<rparr>"
  have c: "0 < chunk_size (db ?st)"
    by (simp add: loop_entry_def resumed_dumper_def empty_dumper_def)
  have h: "get_history ?r (requests ?st) (offset_id ?st) (offset_date ?st) (chunk_size (db ?st)) = Inr ?hF"
    by (simp add: simulated_remote_def serve_def plain_messages_def loop_entry_def
        resumed_dumper_def empty_dumper_def)
  have ne: "h_messages ?hF \<noteq> []" by (simp add: plain_messages_def)
  have lo: "min_list (map row_id (h_messages ?hF)) = stop_at ?st + 1"
    by (simp add: plain_messages_def loop_entry_def)
  have l: "later_replies_seen ?r (requests ?st) (stop_at ?st)"
    by (rule serve_later_replies) (simp add: loop_entry_def)
  have two: "Suc (Suc 0) = 2" by simp
  from one_extra_page [OF c h ne lo l, of ?dl "User 9 False False" 0]
  obtain out where out: "paging ?r ?dl (User 9 False False) 2 ?st = Some out"
    and exact: "raised_error out = None \<longrightarrow>
       (if int (length (h_messages ?hF)) < chunk_size (db ?st) \<or> chunks_left ?st = 1
        then requests (final out) = requests ?st + 1 \<and>
             upsert_log (db (final out)) = upsert_log (db ?st) @ upserted_ids ?hF
        else requests (final out) = requests ?st + 2 \<and>
             (\<exists>t hE. min_date (h_messages ?hF) = Inr t \<and>
                get_history ?r (Suc (requests ?st)) (stop_at ?st + 1) t (chunk_size (db ?st)) = Inr hE \<and>
                upsert_log (db (final out)) = upsert_log (db ?st) @ upserted_ids ?hF @ upserted_ids hE))"
    unfolding two by (elim exE conjE) (rule that)
  from caught_up_returns out have ret: "raised_error out = None" by simp
  have full: "\<not> (int (length (h_messages ?hF)) < chunk_size (db ?st) \<or> chunks_left ?st = 1)"
    by (simp add: plain_messages_def loop_entry_def resumed_dumper_def empty_dumper_def)
  from exact ret full obtain t hE where rq: "requests (final out) = requests ?st + 2"
    and g: "get_history ?r (Suc (requests ?st)) (stop_at ?st + 1) t (chunk_size (db ?st)) = Inr hE"
    and lg: "upsert_log (db (final out)) = upsert_log (db ?st) @ upserted_ids ?hF @ upserted_ids hE"
    by (simp only: if_False simp_thms) blast
  from g have "upserted_ids hE = [3, 2]"
    by (auto simp: simulated_remote_def serve_def plain_messages_def loop_entry_def
        resumed_dumper_def empty_dumper_def upserted_ids_def)
  with lg have "upsert_log (db (final out)) = [5, 4, 3, 2]"
    by (simp add: upserted_ids_def plain_messages_def loop_entry_def resumed_dumper_def empty_dumper_def)
  moreover from rq have "requests (final out) = 2" by (simp add: loop_entry_def)
  ultimately have "\<exists>out. paging ?r ?dl (User 9 False False) 2 ?st = Some out \<and>
      raised_error out = None \<and> requests (final out) = 2 \<and>
      upsert_log (db (final out)) = [5, 4, 3, 2]"
    using out ret by blast
  with c h ne lo l show ?thesis by simp
qed

section \<open>Media downloads and the message record\<close>

lemma one_row_per_key:
  "distinct (map fst al) \<Longrightarrow> k \<in> fst ` set al \<Longrightarrow> length (filter (\<lambda>kv. fst kv = k) al) = 1"
proof (induction al)
  case Nil
  then show ?case by simp
next
  case (Cons a al)
  show ?case
  proof (cases "fst a = k")
    case True
    with Cons.prems(1) have "k \<notin> fst ` set al" by simp
    then have "\<forall>kv \<in> set al. fst kv \<noteq> k" by (metis imageI)
    then have "filter (\<lambda>kv. fst kv = k) al = []" by (simp add: filter_empty_conv)
    with True show ?thesis by simp
  next
    case False
    with Cons show ?thesis by auto
  qed
qed

lemma one_row_after_update:
  "distinct (map fst al) \<Longrightarrow> length (filter (\<lambda>kv. fst kv = k) (AList.update k v al)) = 1"
  by (rule one_row_per_key) (simp_all add: distinct_update dom_update)

text \<open>
  Claim C5, amended. Take a message of a page whose media passes the filter. If the download
  returns, with or without a file, the message is written with its forward id and media id
  and the loop goes on with the next row: the message table then holds exactly one row for
  its id (given one row per id before), that row names the media row, and the media row has
  no blob location. If the download raises, the exception leaves the loop at that message
  with nothing written for it.
\<close>

theorem message_kept_when_download_returns:
  "check_media dl (Some m) \<longrightarrow>
     (download_media r i (Some m) = Inr res \<and> distinct (map fst (message_rows d)) \<longrightarrow>
        (\<exists>d'. dump_row r dl target q (Message i date (Some m) fwd) d = Returned () d' \<and>
              dump_rows r dl target q (Message i date (Some m) fwd # rest) d =
                dump_rows r dl target q rest d' \<and>
              map_of (message_rows d') i =
                Some (StoredMessage (Message i date (Some m) fwd) (fst (dump_forward fwd d))
                        (Some (media_key m))) \<and>
              length (filter (\<lambda>kv. fst kv = i) (message_rows d')) = 1 \<and>
              map_of (media_rows d') (media_key m) = Some (StoredMedia m None))) \<and>
     (download_media r i (Some m) = Inl err \<longrightarrow>
        dump_row r dl target q (Message i date (Some m) fwd) d = Raised err d \<and>
        dump_rows r dl target q (Message i date (Some m) fwd # rest) d = Raised err d)"
proof (intro impI conjI)
  assume c: "check_media dl (Some m)"
  assume "download_media r i (Some m) = Inr res \<and> distinct (map fst (message_rows d))"
  then have ok: "download_media r i (Some m) = Inr res" and dis: "distinct (map fst (message_rows d))"
    by simp_all
  obtain fid d1 where f: "dump_forward fwd d = (fid, d1)" by (cases "dump_forward fwd d")
  let ?row = "Message i date (Some m) fwd"
  let ?d2 = "d1\<lparr>media_rows := AList.update (media_key m) (StoredMedia m None) (media_rows d1)\<rparr>"
  let ?d' = "dump_message ?row fid (Some (media_key m)) ?d2"
  from f have rows: "message_rows d1 = message_rows d"
    by (auto simp: dump_forward_def split: option.splits)
  from c ok f have r: "dump_row r dl target q ?row d = Returned () ?d'"
    by (simp add: dump_media_def)
  moreover from r have "dump_rows r dl target q (?row # rest) d = dump_rows r dl target q rest ?d'"
    by simp
  moreover have "map_of (message_rows ?d') i = Some (StoredMessage ?row (fst (dump_forward fwd d))
                        (Some (media_key m)))"
    using f by (simp add: dump_message_def update_conv')
  moreover have "length (filter (\<lambda>kv. fst kv = i) (message_rows ?d')) = 1"
    using dis rows by (simp add: dump_message_def one_row_after_update)
  moreover have "map_of (media_rows ?d') (media_key m) = Some (StoredMedia m None)"
    by (simp add: dump_message_def update_conv')
  ultimately show "\<exists>d'. dump_row r dl target q ?row d = Returned () d' \<and>
              dump_rows r dl target q (?row # rest) d = dump_rows r dl target q rest d' \<and>
              map_of (message_rows d') i =
                Some (StoredMessage ?row (fst (dump_forward fwd d)) (Some (media_key m))) \<and>
              length (filter (\<lambda>kv. fst kv = i) (message_rows d')) = 1 \<and>
              map_of (media_rows d') (media_key m) = Some (StoredMedia m None)"
    by blast
next
  assume "check_media dl (Some m)" "download_media r i (Some m) = Inl err"
  then show "dump_row r dl target q (Message i date (Some m) fwd) d = Raised err d" by simp
  then show "dump_rows r dl target q (Message i date (Some m) fwd # rest) d = Raised err d" by simp
qed

text \<open>
  Claim C5 as stated fails: a download that raises ends \<open>save_messages\<close> with that exception
  and the message table still empty.
\<close>

theorem media_failure_counterexample:
  "check_media \<lparr>max_size = Some 1, types = {}\<rparr> (Some (MessageMediaPhoto (Photo 9))) \<and>
   download_media (refusing_remote [Message 7 70 (Some (MessageMediaPhoto (Photo 9))) None]) 7
     (Some (MessageMediaPhoto (Photo 9))) = Inl RPCError \<and>
   map_option (\<lambda>out. (raised_error out, message_rows (db (final out)), media_rows (db (final out))))
     (save_messages (refusing_remote [Message 7 70 (Some (MessageMediaPhoto (Photo 9))) None])
        \<lparr>max_size = Some 1, types = {}\<rparr> (User 9 False False) (empty_dumper 5 0) 1) =
   Some (Some RPCError, [], [])"
  by code_simp


theorem message_kept_when_download_returns_witness:
  "check_media \<lparr>max_size = Some 1, types = {}\<rparr> (Some (MessageMediaPhoto (Photo 9))) \<and>
   download_media quiet_remote 7 (Some (MessageMediaPhoto (Photo 9))) = Inr None \<and>
   distinct (map fst (message_rows (empty_dumper 5 0))) \<and>
   (\<exists>d'. dump_row quiet_remote \<lparr>max_size = Some 1, types = {}\<rparr> (User 9 False False)
            (entity_downloader_init False [])
            (Message 7 70 (Some (MessageMediaPhoto (Photo 9))) (Some (FwdHeader 1 2)))
            (empty_dumper 5 0) = Returned () d' \<and>
         map_of (message_rows d') 7 =
           Some (StoredMessage (Message 7 70 (Some (MessageMediaPhoto (Photo 9))) (Some (FwdHeader 1 2)))
                   (Some 1) (Some 9)) \<and>
         length (filter (\<lambda>kv. fst kv = 7) (message_rows d')) = 1 \<and>
         map_of (media_rows d') 9 = Some (StoredMedia (MessageMediaPhoto (Photo 9)) None))"
proof -
  let ?dl = "\<lparr>max_size = Some 1, types = {}\<rparr>"
  let ?m = "MessageMediaPhoto (Photo 9)"
  have c: "check_media ?dl (Some ?m)" by (simp add: check_media_def)
  have dn: "download_media quiet_remote 7 (Some ?m) = Inr None" by (simp add: quiet_remote_def)
  have ds: "distinct (map fst (message_rows (empty_dumper 5 0)))" by (simp add: empty_dumper_def)
  have f: "fst (dump_forward (Some (FwdHeader 1 2)) (empty_dumper 5 0)) = Some 1"
    by (simp add: dump_forward_def empty_dumper_def)
  let ?row = "Message 7 70 (Some ?m) (Some (FwdHeader 1 2))"
  from message_kept_when_download_returns
    [of ?dl ?m quiet_remote 7 None "empty_dumper 5 0" "User 9 False False"
        "entity_downloader_init False []" 70 "Some (FwdHeader 1 2)" "[]"]
    c dn ds
  obtain d' where d': "dump_row quiet_remote ?dl (User 9 False False) (entity_downloader_init False [])
        ?row (empty_dumper 5 0) = Returned () d'"
    "map_of (message_rows d') 7 =
       Some (StoredMessage ?row (fst (dump_forward (Some (FwdHeader 1 2)) (empty_dumper 5 0)))
               (Some (media_key ?m)))"
    "length (filter (\<lambda>kv. fst kv = 7) (message_rows d')) = 1"
    "map_of (media_rows d') (media_key ?m) = Some (StoredMedia ?m None)"
    by blast
  from d'(2) have m7: "map_of (message_rows d') 7 = Some (StoredMessage ?row (Some 1) (Some 9))"
    by (simp only: f media_key.simps)
  from d'(4) have m9: "map_of (media_rows d') 9 = Some (StoredMedia ?m None)"
    by (simp only: media_key.simps)
  from d'(1,3) m7 m9 c dn ds show ?thesis by blast
qed

section \<open>What \<open>MaxSize\<close> and the whitelist switch off\<close>

text \<open>
  The entity downloader keeps the photo format it was made with, through every offer and
  every pop.
\<close>

lemma dump_entity_photo_fmt: "photo_fmt (final (dump_entity r e q)) = photo_fmt q"
  by (cases e)
     (simp_all add: dump_entity_def Let_def add_row_def mark_dumped_def split: option.splits)

lemma enqueue_photo_fmt: "photo_fmt (enqueue r e q) = photo_fmt q"
  by (simp add: enqueue_def Let_def)

lemma extend_pending_photo_fmt: "photo_fmt (final (extend_pending r es q)) = photo_fmt q"
proof (induction es arbitrary: q)
  case Nil
  then show ?case by simp
next
  case (Cons e es)
  show ?case
  proof (cases e)
    case (Chat i)
    show ?thesis
    proof (cases "dump_entity r e q")
      case (Returned n q1)
      with dump_entity_photo_fmt [of r e q] have "photo_fmt q1 = photo_fmt q" by simp
      with Cons.IH [of q1] Chat Returned show ?thesis by simp
    next
      case (Raised err q1)
      with dump_entity_photo_fmt [of r e q] Chat show ?thesis by simp
    qed
  qed (simp_all add: Cons.IH enqueue_photo_fmt)
qed

lemma pop_pending_photo_fmt: "photo_fmt (final (pop_pending r q)) = photo_fmt q"
proof (cases "pending q")
  case Nil
  then show ?thesis by (simp add: pop_pending_def)
next
  case (Cons e rest)
  with dump_entity_photo_fmt [of r e "q\<lparr>pending := rest\<rparr>"] show ?thesis
    by (simp add: pop_pending_def)
qed

text \<open>Two remotes that differ in their downloads alone.\<close>

lemma dump_entity_remote:
  assumes "get_peer_id r' = get_peer_id r" "get_full r' = get_full r"
    and "photo_fmt q \<Longrightarrow> download_file r' = download_file r"
  shows "dump_entity r' e q = dump_entity r e q"
  using assms
  by (cases e; cases "photo_fmt q")
     (simp_all add: dump_entity_def Let_def download_profile_photo_def add_row_def
        split: option.splits)

lemma enqueue_remote: "get_peer_id r' = get_peer_id r \<Longrightarrow> enqueue r' e q = enqueue r e q"
  by (simp add: enqueue_def)

lemma extend_pending_remote:
  assumes "get_peer_id r' = get_peer_id r" "get_full r' = get_full r"
  shows "(photo_fmt q \<Longrightarrow> download_file r' = download_file r) \<Longrightarrow>
         extend_pending r' es q = extend_pending r es q"
proof (induction es arbitrary: q)
  case Nil
  show ?case by simp
next
  case (Cons e es)
  have en: "extend_pending r' es (enqueue r e q) = extend_pending r es (enqueue r e q)"
    using Cons.prems by (intro Cons.IH) (simp add: enqueue_photo_fmt)
  have same: "extend_pending r' es q = extend_pending r es q"
    using Cons.prems by (intro Cons.IH)
  show ?case
  proof (cases e)
    case (Chat i)
    have d: "dump_entity r' e q = dump_entity r e q"
      using assms Cons.prems by (rule dump_entity_remote)
    show ?thesis
    proof (cases "dump_entity r e q")
      case (Returned n q1)
      with dump_entity_photo_fmt [of r e q] have "photo_fmt q1 = photo_fmt q" by simp
      with Cons.prems have "extend_pending r' es q1 = extend_pending r es q1"
        by (intro Cons.IH) simp
      with d Returned Chat show ?thesis by simp
    next
      case (Raised err q1)
      with d Chat show ?thesis by simp
    qed
  next
    case (User i deleted mn)
    with en same show ?thesis by (auto simp: enqueue_remote [OF assms(1)])
  next
    case (Channel i left mega)
    with en same show ?thesis by (auto simp: enqueue_remote [OF assms(1)])
  qed (simp_all add: same)
qed

lemma pop_pending_remote:
  assumes "get_peer_id r' = get_peer_id r" "get_full r' = get_full r"
    and "photo_fmt q \<Longrightarrow> download_file r' = download_file r"
  shows "pop_pending r' q = pop_pending r q"
proof (cases "pending q")
  case Nil
  then show ?thesis by (simp add: pop_pending_def)
next
  case (Cons e rest)
  have "dump_entity r' e (q\<lparr>pending := rest\<rparr>) = dump_entity r e (q\<lparr>pending := rest\<rparr>)"
    using assms by (intro dump_entity_remote) simp_all
  with Cons show ?thesis by (simp add: pop_pending_def)
qed

lemma dump_row_remote:
  assumes "photo_fmt q \<Longrightarrow> download_file r' = download_file r"
    and "\<not> not_max_size (max_size dl) \<Longrightarrow> download_media_file r' = download_media_file r"
  shows "dump_row r' dl target q m d = dump_row r dl target q m d"
proof (cases m)
  case (Message i date media fwd)
  show ?thesis
  proof (cases "check_media dl media")
    case True
    then have "\<not> not_max_size (max_size dl)" by (auto simp: check_media_def split: if_splits)
    with assms(2) have "download_media_file r' = download_media_file r" by simp
    then have "download_media r' i media = download_media r i media"
      by (cases "(r, i, media)" rule: download_media.cases) simp_all
    with Message show ?thesis by simp
  next
    case False
    with Message show ?thesis by simp
  qed
next
  case (MessageService i date action)
  show ?thesis
  proof (cases action)
    case (MessageActionChatEditPhoto p)
    have "download_profile_photo r' q target (Some i) = download_profile_photo r q target (Some i)"
      using assms(1) by (cases "photo_fmt q") (simp_all add: download_profile_photo_def)
    with MessageService MessageActionChatEditPhoto show ?thesis by simp
  next
    case MessageActionOther
    with MessageService show ?thesis by simp
  qed
next
  case (MessageEmpty i)
  then show ?thesis by simp
qed

lemma dump_rows_remote:
  assumes "photo_fmt q \<Longrightarrow> download_file r' = download_file r"
    and "\<not> not_max_size (max_size dl) \<Longrightarrow> download_media_file r' = download_media_file r"
  shows "dump_rows r' dl target q ms d = dump_rows r dl target q ms d"
proof (induction ms arbitrary: d)
  case Nil
  show ?case by simp
next
  case (Cons m ms)
  from dump_row_remote [OF assms, where target = target and m = m and d = d] Cons.IH show ?case
    by (simp split: outcome.splits)
qed


lemma process_page_photo_fmt:
  "photo_fmt (queue (final (process_page r dl target h st))) = photo_fmt (queue st)"
proof (cases "extend_pending r (h_users h @ h_chats h) (queue st)")
  case (Raised err q1)
  with extend_pending_photo_fmt [of r "h_users h @ h_chats h" "queue st"] show ?thesis
    by (simp add: process_page_def)
next
  case ext: (Returned u q1)
  with extend_pending_photo_fmt [of r "h_users h @ h_chats h" "queue st"]
  have q1: "photo_fmt q1 = photo_fmt (queue st)" by simp
  show ?thesis
  proof (cases "pop_pending r q1")
    case (Raised err q2)
    with pop_pending_photo_fmt [of r q1] q1 ext show ?thesis by (simp add: process_page_def)
  next
    case pop: (Returned n q2)
    with pop_pending_photo_fmt [of r q1] q1 have q2: "photo_fmt q2 = photo_fmt (queue st)" by simp
    show ?thesis
    proof (cases "dump_rows r dl target q2 (h_messages h) (db st)")
      case (Raised err d1)
      with ext pop q2 show ?thesis by (simp add: process_page_def)
    next
      case (Returned v d1)
      with ext pop
      have "final (process_page r dl target h st) = final (advance_offset h (st\<lparr>queue := q2, db := d1\<rparr>))"
        by (simp add: process_page_def)
      with advance_offset_frame [OF refl, of h "st\<lparr>queue := q2, db := d1\<rparr>"] q2
      show ?thesis by simp
    qed
  qed
qed

lemma process_page_remote:
  assumes "get_peer_id r' = get_peer_id r" "get_full r' = get_full r"
    and "photo_fmt (queue st) \<Longrightarrow> download_file r' = download_file r"
    and "\<not> not_max_size (max_size dl) \<Longrightarrow> download_media_file r' = download_media_file r"
  shows "process_page r' dl target h st = process_page r dl target h st"
proof -
  let ?es = "h_users h @ h_chats h"
  have ext: "extend_pending r' ?es (queue st) = extend_pending r ?es (queue st)"
    using assms(1,2,3) by (rule extend_pending_remote)
  show ?thesis
  proof (cases "extend_pending r ?es (queue st)")
    case (Raised err q1)
    with ext show ?thesis by (simp add: process_page_def)
  next
    case e: (Returned u q1)
    with extend_pending_photo_fmt [of r ?es "queue st"]
    have q1: "photo_fmt q1 = photo_fmt (queue st)" by simp
    have pop: "pop_pending r' q1 = pop_pending r q1"
      using assms(1,2,3) q1 by (intro pop_pending_remote) simp_all
    show ?thesis
    proof (cases "pop_pending r q1")
      case (Raised err q2)
      with ext e pop show ?thesis by (simp add: process_page_def)
    next
      case p: (Returned n q2)
      with pop_pending_photo_fmt [of r q1] q1 have q2: "photo_fmt q2 = photo_fmt (queue st)" by simp
      have "dump_rows r' dl target q2 (h_messages h) (db st) =
            dump_rows r dl target q2 (h_messages h) (db st)"
        using assms(3,4) q2 by (intro dump_rows_remote) simp_all
      with ext e pop p show ?thesis by (simp add: process_page_def)
    qed
  qed
qed

lemma checkpoint_queue: "queue (snd (checkpoint n st)) = queue st"
  by (simp add: checkpoint_def Let_def)

lemma paging_remote:
  assumes "get_peer_id r' = get_peer_id r" "get_full r' = get_full r"
    and "get_history r' = get_history r"
    and "\<not> not_max_size (max_size dl) \<Longrightarrow> download_media_file r' = download_media_file r"
  shows "(photo_fmt (queue st) \<Longrightarrow> download_file r' = download_file r) \<Longrightarrow>
         paging r' dl target fuel st = paging r dl target fuel st"
proof (induction fuel arbitrary: st)
  case 0
  show ?case by simp
next
  case (Suc fuel)
  show ?case
  proof (cases "get_history r (requests st) (offset_id st) (offset_date st) (chunk_size (db st))")
    case (Inl err)
    with assms(3) show ?thesis by simp
  next
    case (Inr h)
    let ?st' = "st\<lparr>requests := requests st + 1\<rparr>"
    have pp: "process_page r' dl target h ?st' = process_page r dl target h ?st'"
      using assms(1,2) Suc.prems assms(4) by (intro process_page_remote) simp_all
    show ?thesis
    proof (cases "process_page r dl target h ?st'")
      case (Raised err st1)
      with Inr pp assms(3) show ?thesis by simp
    next
      case (Returned u st1)
      with process_page_photo_fmt [of r dl target h ?st']
      have f1: "photo_fmt (queue st1) = photo_fmt (queue st)" by simp
      obtain b st2 where ck: "checkpoint (int (length (h_messages h))) st1 = (b, st2)"
        by (cases "checkpoint (int (length (h_messages h))) st1")
      with checkpoint_queue [of "int (length (h_messages h))" st1] f1
      have f2: "photo_fmt (queue st2) = photo_fmt (queue st)" by simp
      have "paging r' dl target fuel st2 = paging r dl target fuel st2"
        using Suc.prems f2 by (intro Suc.IH) simp
      with Inr pp Returned ck assms(3) show ?thesis by (cases b) simp_all
    qed
  qed
qed

lemma paging_photo_fmt:
  "paging r dl target fuel st = Some out \<Longrightarrow> photo_fmt (queue (final out)) = photo_fmt (queue st)"
proof (induction fuel arbitrary: st)
  case 0
  then show ?case by simp
next
  case (Suc fuel)
  show ?case
  proof (cases "get_history r (requests st) (offset_id st) (offset_date st) (chunk_size (db st))")
    case (Inl err)
    with Suc.prems show ?thesis by auto
  next
    case (Inr h)
    let ?st' = "st\<lparr>requests := requests st + 1\<rparr>"
    show ?thesis
    proof (cases "process_page r dl target h ?st'")
      case (Raised err st1)
      with process_page_photo_fmt [of r dl target h ?st'] Inr Suc.prems show ?thesis by auto
    next
      case (Returned u st1)
      with process_page_photo_fmt [of r dl target h ?st']
      have f1: "photo_fmt (queue st1) = photo_fmt (queue st)" by simp
      obtain b st2 where ck: "checkpoint (int (length (h_messages h))) st1 = (b, st2)"
        by (cases "checkpoint (int (length (h_messages h))) st1")
      with checkpoint_queue [of "int (length (h_messages h))" st1] f1
      have f2: "photo_fmt (queue st2) = photo_fmt (queue st)" by simp
      show ?thesis
      proof (cases b)
        case True
        with Inr Returned ck Suc.prems f2 show ?thesis by auto
      next
        case False
        with Inr Returned ck Suc.prems have "paging r dl target fuel st2 = Some out" by simp
        from Suc.IH [OF this] f2 show ?thesis by simp
      qed
    qed
  qed
qed

lemma drain_remote:
  "get_peer_id r' = get_peer_id r \<Longrightarrow> get_full r' = get_full r \<Longrightarrow>
   (photo_fmt (queue st) \<Longrightarrow> download_file r' = download_file r) \<Longrightarrow>
   drain r' st = drain r st"
proof (induction "length (pending (queue st))" arbitrary: st)
  case 0
  then have "\<not> queue_bool (queue st)" by (simp add: queue_bool_def)
  then show ?case by (simp add: drain.simps)
next
  case (Suc n)
  then obtain e rest where p: "pending (queue st) = e # rest"
    by (cases "pending (queue st)") simp_all
  have pop: "pop_pending r' (queue st) = pop_pending r (queue st)"
    using Suc.prems by (rule pop_pending_remote)
  show ?case
  proof (cases "pop_pending r (queue st)")
    case (Raised err q1)
    with pop p show ?thesis by (simp add: drain.simps queue_bool_def)
  next
    case (Returned k q1)
    let ?st1 = "st\<lparr>queue := q1, db := commit (db st)\<rparr>"
    from Returned p have "dump_entity r e ((queue st)\<lparr>pending := rest\<rparr>) = Returned k q1"
      by (simp add: pop_pending_def)
    then have "pending q1 = rest"
      by (cases e)
         (auto simp: dump_entity_def mark_dumped_def add_row_def Let_def split: option.splits)
    with p Suc.hyps(2) have len: "n = length (pending (queue ?st1))" by simp
    from Returned pop_pending_photo_fmt [of r "queue st"]
    have "photo_fmt (queue ?st1) = photo_fmt (queue st)" by simp
    with Suc.prems(3) have "photo_fmt (queue ?st1) \<Longrightarrow> download_file r' = download_file r" by simp
    from Suc.hyps(1) [OF len Suc.prems(1,2) this]
    have "drain r' ?st1 = drain r ?st1" .
    with pop Returned p show ?thesis
      by (simp add: drain.simps [of r st] drain.simps [of r' st] queue_bool_def)
  qed
qed

lemma start_sync_photo_fmt:
  "photo_fmt (queue (final (start_sync r dl target d))) = (''chatphoto'' \<in> types dl)"
proof -
  let ?q0 = "entity_downloader_init (''chatphoto'' \<in> types dl) []"
  have q0: "photo_fmt ?q0 = (''chatphoto'' \<in> types dl)" by (simp add: entity_downloader_init_def)
  from extend_pending_photo_fmt [of r "[target]" ?q0] q0
  have "photo_fmt (final (extend_pending r [target] ?q0)) = (''chatphoto'' \<in> types dl)"
    by (simp only:)
  then show ?thesis
    by (cases "extend_pending r [target] ?q0"; cases "list_participants r target d")
       (simp_all add: start_sync_def Let_def get_resume_def split: prod.splits)
qed

lemma start_sync_remote:
  assumes "get_peer_id r' = get_peer_id r" "get_full r' = get_full r"
    and "get_participants r' = get_participants r"
    and "''chatphoto'' \<in> types dl \<Longrightarrow> download_file r' = download_file r"
  shows "start_sync r' dl target d = start_sync r dl target d"
proof -
  let ?q0 = "entity_downloader_init (''chatphoto'' \<in> types dl) []"
  have "extend_pending r' [target] ?q0 = extend_pending r [target] ?q0"
    using assms(1,2,4) by (intro extend_pending_remote) (simp_all add: entity_downloader_init_def)
  moreover have "list_participants r' target d = list_participants r target d"
    using assms(3) by (simp add: list_participants_def)
  ultimately show ?thesis by (simp only: start_sync_def Let_def)
qed

lemma save_messages_remote:
  assumes "get_peer_id r' = get_peer_id r" "get_full r' = get_full r"
    and "get_history r' = get_history r" "get_participants r' = get_participants r"
    and "''chatphoto'' \<in> types dl \<Longrightarrow> download_file r' = download_file r"
    and "\<not> not_max_size (max_size dl) \<Longrightarrow> download_media_file r' = download_media_file r"
  shows "save_messages r' dl target d fuel = save_messages r dl target d fuel"
proof -
  have st: "start_sync r' dl target d = start_sync r dl target d"
    using assms(1,2,4,5) by (rule start_sync_remote)
  show ?thesis
  proof (cases "start_sync r dl target d")
    case (Raised err st0)
    with st show ?thesis by (simp add: save_messages_def)
  next
    case (Returned u st0)
    with start_sync_photo_fmt [of r dl target d]
    have f0: "photo_fmt (queue st0) = (''chatphoto'' \<in> types dl)" by simp
    have pg: "paging r' dl target fuel st0 = paging r dl target fuel st0"
      using assms(1,2,3,6) assms(5) f0 by (intro paging_remote) simp_all
    show ?thesis
    proof (cases "paging r dl target fuel st0")
      case None
      with st Returned pg show ?thesis by (simp add: save_messages_def)
    next
      case (Some out)
      show ?thesis
      proof (cases out)
        case (Raised err st1)
        with st Returned pg Some show ?thesis by (simp add: save_messages_def)
      next
        case r1: (Returned v st1)
        let ?st2 = "st1\<lparr>db := commit (db st1)\<rparr>"
        from paging_photo_fmt [OF Some] r1 f0
        have "photo_fmt (queue ?st2) = (''chatphoto'' \<in> types dl)" by simp
        with assms(5) have "drain r' ?st2 = drain r ?st2"
          using assms(1,2) by (intro drain_remote) simp_all
        with st Returned pg Some r1 show ?thesis by (simp add: save_messages_def)
      qed
    qed
  qed
qed

text \<open>
  Claim C10 as stated fails: \<open>MaxSize\<close> zero does not disable all media downloading. With
  \<open>MaxSize\<close> zero and \<open>chatphoto\<close> in the whitelist \<open>check_media\<close> refuses every media, yet
  \<open>save_messages\<close> still asks the remote for the profile photo of the target: with a remote
  whose file download raises, the run ends with that exception.
\<close>

theorem profile_photo_counterexample:
  "Downloader_init (Some 0) [''chatphoto''] =
     Inr \<lparr>max_size = Some 0, types = {''unknown'', ''chatphoto''}\<rparr> \<and>
   \<not> check_media \<lparr>max_size = Some 0, types = {''unknown'', ''chatphoto''}\<rparr>
       (Some (MessageMediaPhoto (Photo 7))) \<and>
   map_option raised_error
     (save_messages quiet_remote \<lparr>max_size = Some 0, types = {''unknown'', ''chatphoto''}\<rparr>
        (User 9 False False) (empty_dumper 5 0) 1) = Some None \<and>
   map_option raised_error
     (save_messages (quiet_remote\<lparr>download_file := (\<lambda>_ _. Some OSError)\<rparr>)
        \<lparr>max_size = Some 0, types = {''unknown'', ''chatphoto''}\<rparr>
        (User 9 False False) (empty_dumper 5 0) 1) = Some (Some OSError)"
proof -
  have "Downloader_init (Some 0) [''chatphoto''] =
     Inr \<lparr>max_size = Some 0, types = {''unknown'', ''chatphoto''}\<rparr>"
    by (simp add: Downloader_init_def VALID_TYPES_def)
  moreover have "\<not> check_media \<lparr>max_size = Some 0, types = {''unknown'', ''chatphoto''}\<rparr>
       (Some (MessageMediaPhoto (Photo 7)))"
    by (simp add: check_media_def)
  moreover have "map_option raised_error
     (save_messages quiet_remote \<lparr>max_size = Some 0, types = {''unknown'', ''chatphoto''}\<rparr>
        (User 9 False False) (empty_dumper 5 0) 1) = Some None"
    by code_simp
  moreover have "map_option raised_error
     (save_messages (quiet_remote\<lparr>download_file := (\<lambda>_ _. Some OSError)\<rparr>)
        \<lparr>max_size = Some 0, types = {''unknown'', ''chatphoto''}\<rparr>
        (User 9 False False) (empty_dumper 5 0) 1) = Some (Some OSError)"
    by code_simp
  ultimately show ?thesis by blast
qed

lemma no_media_request_run:
  "map_option (\<lambda>out. (upsert_log (db (final out)), map fst (media_rows (db (final out))), raised_error out))
     (save_messages (simulated_remote [Message 7 70 (Some (MessageMediaPhoto (Photo 9))) None])
        \<lparr>max_size = Some 0, types = {}\<rparr> (User 9 False False) (empty_dumper 5 0) 1) =
   Some ([7], [9], None)"
  by code_simp

text \<open>
  Claim C10, amended. \<open>check_media\<close> is false when the media is absent or \<open>MaxSize\<close> is zero,
  whatever the whitelist; with a nonzero \<open>MaxSize\<close> and an empty whitelist it is true for every
  present media; its answer is the same for any two nonzero values of \<open>MaxSize\<close> and for any
  two sizes of a document, so \<open>MaxSize\<close> is never compared with a size; the constructor
  stores \<open>MaxSize\<close> as given and builds an empty type set exactly from a whitelist with only
  blank entries. What \<open>MaxSize\<close> zero (or unset) disables is the download of message media
  in \<open>save_messages\<close>: the run is the same whatever the remote's media download would do.
  Profile and chat photos are switched by the whitelist instead: a run of \<open>save_messages\<close> is the same
  whatever the remote's file download would do when \<open>chatphoto\<close> is not in the type set,
  whatever \<open>MaxSize\<close> is.
\<close>

theorem check_media_gate:
  "(media = None \<or> max_size d = Some 0 \<longrightarrow> \<not> check_media d media) \<and>
   (max_size d = Some n \<and> n \<noteq> 0 \<and> types d = {} \<longrightarrow> check_media d (Some m)) \<and>
   (n \<noteq> 0 \<and> n' \<noteq> 0 \<longrightarrow>
      check_media (d\<lparr>max_size := Some n\<rparr>) media = check_media (d\<lparr>max_size := Some n'\<rparr>) media) \<and>
   check_media d (Some (MessageMediaDocument (Document i sz attrs))) =
     check_media d (Some (MessageMediaDocument (Document i sz' attrs))) \<and>
   (Downloader_init ms wl = Inr d' \<longrightarrow>
      max_size d' = ms \<and> (types d' = {} \<longleftrightarrow> (\<forall>x \<in> set wl. x = []))) \<and>
   (not_max_size (max_size d) \<longrightarrow>
      save_messages (r\<lparr>download_media_file := f\<rparr>) d target store fuel =
        save_messages r d target store fuel) \<and>
   (''chatphoto'' \<notin> types d \<longrightarrow>
      save_messages (r\<lparr>download_file := g\<rparr>) d target store fuel =
        save_messages r d target store fuel)"
proof -
  have a: "save_messages (r\<lparr>download_media_file := f\<rparr>) d target store fuel =
        save_messages r d target store fuel" if "not_max_size (max_size d)"
    using that by (intro save_messages_remote) simp_all
  have b: "save_messages (r\<lparr>download_file := g\<rparr>) d target store fuel =
        save_messages r d target store fuel" if "''chatphoto'' \<notin> types d"
    using that by (intro save_messages_remote) simp_all
  from a b check_media_answers [of media d n m n' i sz attrs sz' ms wl d']
  show ?thesis by blast
qed

theorem check_media_gate_witness:
  "max_size \<lparr>max_size = Some 0, types = {}\<rparr> = Some 0 \<and>
   \<not> check_media \<lparr>max_size = Some 0, types = {}\<rparr> (Some (MessageMediaPhoto (Photo 7))) \<and>
   max_size \<lparr>max_size = Some 5, types = {}\<rparr> = Some 5 \<and> (5::int) \<noteq> 0 \<and>
   types \<lparr>max_size = Some 5, types = {}\<rparr> = {} \<and>
   check_media \<lparr>max_size = Some 5, types = {}\<rparr>
     (Some (MessageMediaDocument (Document 1 1000 [DocumentAttributeVideo]))) \<and>
   Downloader_init (Some 5) ['''', ''''] = Inr \<lparr>max_size = Some 5, types = {}\<rparr> \<and>
   not_max_size (max_size \<lparr>max_size = Some 0, types = {}\<rparr>) \<and>
   ''chatphoto'' \<notin> types \<lparr>max_size = Some 0, types = {}\<rparr> \<and>
   map_option (\<lambda>out. (upsert_log (db (final out)), map fst (media_rows (db (final out))), raised_error out))
     (save_messages (refusing_remote [Message 7 70 (Some (MessageMediaPhoto (Photo 9))) None])
        \<lparr>max_size = Some 0, types = {}\<rparr> (User 9 False False) (empty_dumper 5 0) 1) =
   Some ([7], [9], None) \<and>
   map_option (\<lambda>out. (upsert_log (db (final out)), map fst (media_rows (db (final out))), raised_error out))
     (save_messages
        ((simulated_remote [Message 7 70 (Some (MessageMediaPhoto (Photo 9))) None])
           \<lparr>download_file := (\<lambda>_ _. Some OSError)\<rparr>)
        \<lparr>max_size = Some 0, types = {}\<rparr> (User 9 False False) (empty_dumper 5 0) 1) =
   Some ([7], [9], None)"
proof -
  let ?d0 = "\<lparr>max_size = Some 0, types = {}\<rparr>"
  let ?r = "simulated_remote [Message 7 70 (Some (MessageMediaPhoto (Photo 9))) None]"
  have i: "Downloader_init (Some 5) ['''', ''''] = Inr \<lparr>max_size = Some 5, types = {}\<rparr>"
    by (simp add: Downloader_init_def)
  from check_media_gate
    [where media = "Some (MessageMediaPhoto (Photo 7))" and d = ?d0 and r = ?r
       and f = "\<lambda>_. Inl RPCError" and target = "User 9 False False"
       and store = "empty_dumper 5 0" and fuel = 1 and g = "\<lambda>_ _. Some OSError"]
  have a: "\<not> check_media ?d0 (Some (MessageMediaPhoto (Photo 7)))"
    and s: "save_messages (?r\<lparr>download_media_file := (\<lambda>_. Inl RPCError)\<rparr>) ?d0 (User 9 False False)
              (empty_dumper 5 0) 1 =
            save_messages ?r ?d0 (User 9 False False) (empty_dumper 5 0) 1"
    and t: "save_messages (?r\<lparr>download_file := (\<lambda>_ _. Some OSError)\<rparr>) ?d0 (User 9 False False)
              (empty_dumper 5 0) 1 =
            save_messages ?r ?d0 (User 9 False False) (empty_dumper 5 0) 1"
    by simp_all
  from check_media_gate
    [where d = "\<lparr>max_size = Some 5, types = {}\<rparr>" and n = 5
       and m = "MessageMediaDocument (Document 1 1000 [DocumentAttributeVideo])"]
  have b: "check_media \<lparr>max_size = Some 5, types = {}\<rparr>
     (Some (MessageMediaDocument (Document 1 1000 [DocumentAttributeVideo])))"
    by simp
  from s have s': "save_messages (refusing_remote [Message 7 70 (Some (MessageMediaPhoto (Photo 9))) None])
      ?d0 (User 9 False False) (empty_dumper 5 0) 1 =
      save_messages ?r ?d0 (User 9 False False) (empty_dumper 5 0) 1"
    by (simp only: refusing_remote_def)
  have p1: "map_option (\<lambda>out. (upsert_log (db (final out)), map fst (media_rows (db (final out))), raised_error out))
     (save_messages (refusing_remote [Message 7 70 (Some (MessageMediaPhoto (Photo 9))) None])
        ?d0 (User 9 False False) (empty_dumper 5 0) 1) = Some ([7], [9], None)"
    unfolding s' by (rule no_media_request_run)
  have p2: "map_option (\<lambda>out. (upsert_log (db (final out)), map fst (media_rows (db (final out))), raised_error out))
     (save_messages (?r\<lparr>download_file := (\<lambda>_ _. Some OSError)\<rparr>)
        ?d0 (User 9 False False) (empty_dumper 5 0) 1) = Some ([7], [9], None)"
    unfolding t by (rule no_media_request_run)
  have m0: "max_size ?d0 = Some 0" and nm: "not_max_size (max_size ?d0)"
    and cp: "''chatphoto'' \<notin> types ?d0"
    and m5: "max_size \<lparr>max_size = Some 5, types = {}\<rparr> = Some 5" and nz: "(5::int) \<noteq> 0"
    and t5: "types \<lparr>max_size = Some 5, types = {}\<rparr> = {}"
    by simp_all
  show ?thesis by (intro conjI m0 a m5 nz t5 b i nm cp p1 p2)
qed

end
